theory Spec2Isabelle
  imports Main "HOL-Library.Word"
begin

unbundle bit_operations_syntax

section \<open>The image file and its decoding primitives\<close>

text \<open>
  Shallow embedding of \<^verbatim>\<open>tools/parse_data_fs.py\<close>, the read-only inspector of the
  custom filesystem image. Python integers are \<^typ>\<open>int\<close>, \<^verbatim>\<open>bytes\<close> is a list of
  8-bit words, and every \<^verbatim>\<open>raise\<close> is a value of \<open>error\<close>.

  A Python \<^verbatim>\<open>str\<close> is represented by its UTF-8 encoding, a \<^typ>\<open>string\<close>: the
  program only compares strings for equality and looks for the separator \<^verbatim>\<open>/\<close>, and
  both agree on the encoding (the byte 47 occurs in UTF-8 only as the separator itself).
\<close>

type_synonym byte = "8 word"

text \<open>
  The exceptions of the program. The first thirteen are its own \<^verbatim>\<open>ValueError\<close>s, told
  apart by their message; the others come from Python and its file object:
  \<^item> \<open>ShortRead\<close>: "unexpected EOF: need n bytes, got m bytes";
  \<^item> \<open>BadMagic\<close>: "bad magic: ...";
  \<^item> \<open>InvalidGeometry\<close>: "invalid superblock: blockSize/totalBlocks";
  \<^item> \<open>BlockOutOfRange\<close>: "blockId out of range: ...";
  \<^item> \<open>InvalidLayout\<close>: "invalid layout: inodes_per_block <= 0";
  \<^item> \<open>InodeOutOfRange\<close>: "inodeId out of range: ...";
  \<^item> \<open>GeometryMismatch\<close>: "inode table block index out of range (superblock mismatch?)";
  \<^item> \<open>InvalidPath\<close>: "invalid path";
  \<^item> \<open>NotADirectory\<close>: "not a directory while resolving: ..." and "not a directory";
  \<^item> \<open>EmptyDirectory\<close>: "directory inode ... has no data block";
  \<^item> \<open>PathNotFound\<close>: "path component not found: ...";
  \<^item> \<open>IsADirectory\<close>: "path is a directory";
  \<^item> \<open>TruncatedFile\<close>: "file is truncated or inode pointers are incomplete";
  \<^item> \<open>IndexError\<close>: Python's own, from indexing a sequence out of range;
  \<^item> \<open>SeekError\<close>: the \<^verbatim>\<open>OSError\<close> of \<^verbatim>\<open>f.seek\<close> at an offset the file system refuses
    (negative, or beyond its largest offset);
  \<^item> \<open>SeekOverflow\<close>: the \<^verbatim>\<open>ValueError\<close> of \<^verbatim>\<open>f.seek\<close> at an offset that is no signed
    64-bit integer;
  \<^item> \<open>ReadLength\<close>: the \<^verbatim>\<open>ValueError\<close> of \<^verbatim>\<open>f.read\<close> for a length below \<open>-1\<close>;
  \<^item> \<open>ReadOverflow\<close>: the \<^verbatim>\<open>OverflowError\<close> of \<^verbatim>\<open>f.read\<close> for a length that is no signed
    64-bit integer.
\<close>

datatype error =
    ShortRead
  | BadMagic
  | InvalidGeometry
  | BlockOutOfRange
  | InvalidLayout
  | InodeOutOfRange
  | GeometryMismatch
  | InvalidPath
  | NotADirectory
  | EmptyDirectory
  | PathNotFound
  | IsADirectory
  | TruncatedFile
  | IndexError
  | SeekError
  | SeekOverflow
  | ReadLength
  | ReadOverflow

text \<open>
  The open binary file (the buffered reader that \<^verbatim>\<open>open(path, "rb")\<close> gives): its bytes,
  the first offset the file system does not let the handle seek to (a property of the
  system the file lives on, 2^44 on a common one), the current position, and the sequence
  of the operations performed on the handle so far (so that "no read happens" is a
  statement about the state).
\<close>

datatype io = Seek int | Read int

record fileobj =
  data :: "byte list"
  max_offset :: int
  pos :: nat
  trace :: "io list"

text \<open>Offsets and lengths are handed to the operating system as signed 64-bit integers.\<close>

definition INT64_LIMIT :: int where
  "INT64_LIMIT = 2 ^ 63"

text \<open>
  \<^verbatim>\<open>f.seek(off)\<close>: an offset that does not fit 64 bits is refused before anything else,
  one that is negative or at or beyond \<open>max_offset\<close> by the system; every other offset is
  accepted, also beyond the end of the file.
\<close>

definition seek :: "fileobj \<Rightarrow> int \<Rightarrow> (error + unit) \<times> fileobj" where
  "seek f off =
     (if off < - INT64_LIMIT \<or> INT64_LIMIT \<le> off then (Inl SeekOverflow, f)
      else if off < 0 \<or> max_offset f \<le> off then (Inl SeekError, f)
      else (Inr (), f\<lparr>pos := nat off, trace := trace f @ [Seek off]\<rparr>))"

text \<open>
  \<^verbatim>\<open>f.read(n)\<close>: up to \<open>n\<close> bytes from the position, and everything left when \<open>n = -1\<close>;
  a length that does not fit 64 bits or is below \<open>-1\<close> is refused. Memory for the result
  is taken to suffice.
\<close>

definition read :: "fileobj \<Rightarrow> int \<Rightarrow> (error + byte list) \<times> fileobj" where
  "read f n =
     (if n < - INT64_LIMIT \<or> INT64_LIMIT \<le> n then (Inl ReadOverflow, f)
      else if n < - 1 then (Inl ReadLength, f)
      else
        (let avail = drop (pos f) (data f);
             out = (if n = - 1 then avail else take (nat n) avail)
         in (Inr out, f\<lparr>pos := pos f + length out, trace := trace f @ [Read n]\<rparr>)))"

definition read_exact :: "fileobj \<Rightarrow> int \<Rightarrow> (error + byte list) \<times> fileobj" where
  "read_exact f n =
     (case read f n of
        (Inl e, f') \<Rightarrow> (Inl e, f')
      | (Inr d, f') \<Rightarrow>
          if int (length d) \<noteq> n then (Inl ShortRead, f') else (Inr d, f'))"

text \<open>\<^verbatim>\<open>xs[i]\<close> on a Python sequence: an index below zero is taken from the end, and an
  index outside both ranges raises.\<close>

definition py_get :: "'a list \<Rightarrow> int \<Rightarrow> error + 'a" where
  "py_get xs i =
     (if 0 \<le> i \<and> i < int (length xs) then Inr (xs ! nat i)
      else if i < 0 \<and> - int (length xs) \<le> i then Inr (xs ! nat (int (length xs) + i))
      else Inl IndexError)"

text \<open>Python slicing \<^verbatim>\<open>xs[:k]\<close>.\<close>

definition py_prefix :: "'a list \<Rightarrow> int \<Rightarrow> 'a list" where
  "py_prefix xs k = (if k < 0 then take (nat (int (length xs) + k)) xs else take (nat k) xs)"

text \<open>A little-endian unsigned integer, and the \<open>k\<close>-th 4-byte field from offset \<open>off\<close>
  (\<^verbatim>\<open>struct\<close>'s \<^verbatim>\<open><I\<close>).\<close>

fun le :: "byte list \<Rightarrow> int" where
  "le [] = 0"
| "le (b # bs) = uint b + 256 * le bs"

definition u32_at :: "byte list \<Rightarrow> nat \<Rightarrow> int" where
  "u32_at raw off = le (take 4 (drop off raw))"

section \<open>Superblock, blocks and inodes\<close>

definition FS_MAGIC :: int where
  "FS_MAGIC = 0x20251205"

definition INODE_SIZE :: int where
  "INODE_SIZE = 44"

definition DIRENTRY_SIZE :: nat where
  "DIRENTRY_SIZE = 64"

record SuperBlock =
  magic :: int
  blockSize :: int
  totalBlocks :: int
  inodeTableStart :: int
  inodeTableBlocks :: int
  inodeCount :: int
  freeBitmapStart :: int
  freeBitmapBlocks :: int
  dataBlockStart :: int
  dataBlockCount :: int
  rootInodeId :: int

record Inode =
  id_ino :: int
  is_dir :: bool
  size_ino :: int
  direct :: "int list"

text \<open>\<^verbatim>\<open>struct.unpack("<11I", raw)\<close> into the dataclass, field by field.\<close>

definition unpack_superblock :: "byte list \<Rightarrow> SuperBlock" where
  "unpack_superblock raw =
     \<lparr>magic = u32_at raw 0, blockSize = u32_at raw 4, totalBlocks = u32_at raw 8,
      inodeTableStart = u32_at raw 12, inodeTableBlocks = u32_at raw 16,
      inodeCount = u32_at raw 20, freeBitmapStart = u32_at raw 24,
      freeBitmapBlocks = u32_at raw 28, dataBlockStart = u32_at raw 32,
      dataBlockCount = u32_at raw 36, rootInodeId = u32_at raw 40\<rparr>"

definition read_superblock :: "fileobj \<Rightarrow> (error + SuperBlock) \<times> fileobj" where
  "read_superblock f =
     (case read_exact f 44 of
        (Inl e, f1) \<Rightarrow> (Inl e, f1)
      | (Inr raw, f1) \<Rightarrow>
          (let sb = unpack_superblock raw in
           if magic sb \<noteq> FS_MAGIC then (Inl BadMagic, f1)
           else if blockSize sb \<le> 0 \<or> totalBlocks sb \<le> 0 then (Inl InvalidGeometry, f1)
           else (Inr sb, f1)))"

definition file_offset_of_block :: "SuperBlock \<Rightarrow> int \<Rightarrow> int" where
  "file_offset_of_block sb block_id = block_id * blockSize sb"

definition read_block :: "fileobj \<Rightarrow> SuperBlock \<Rightarrow> int \<Rightarrow> (error + byte list) \<times> fileobj" where
  "read_block f sb block_id =
     (if block_id < 0 \<or> block_id \<ge> totalBlocks sb then (Inl BlockOutOfRange, f)
      else case seek f (file_offset_of_block sb block_id) of
             (Inl e, f1) \<Rightarrow> (Inl e, f1)
           | (Inr u, f1) \<Rightarrow> read_exact f1 (blockSize sb))"

definition inode_offset :: "SuperBlock \<Rightarrow> int \<Rightarrow> error + int" where
  "inode_offset sb inode_id =
     (let inodes_per_block = blockSize sb div INODE_SIZE in
      if inodes_per_block \<le> 0 then Inl InvalidLayout
      else if inode_id < 0 \<or> inode_id \<ge> inodeCount sb then Inl InodeOutOfRange
      else
        (let block_index = inode_id div inodes_per_block;
             index_in_block = inode_id mod inodes_per_block in
         if block_index \<ge> inodeTableBlocks sb then Inl GeometryMismatch
         else
           (let block_id = inodeTableStart sb + block_index in
            Inr (file_offset_of_block sb block_id + index_in_block * INODE_SIZE))))"

text \<open>\<^verbatim>\<open>INODE_STRUCT = struct.Struct("<I?3xI8I")\<close>: the id, a one-byte flag (true when
  non-zero), three bytes of padding, the size and the eight direct block identifiers.\<close>

definition unpack_inode :: "byte list \<Rightarrow> Inode" where
  "unpack_inode raw =
     \<lparr>id_ino = u32_at raw 0, is_dir = (raw ! 4 \<noteq> 0), size_ino = u32_at raw 8,
      direct = map (\<lambda>k. u32_at raw (12 + 4 * k)) [0..<8]\<rparr>"

definition read_inode :: "fileobj \<Rightarrow> SuperBlock \<Rightarrow> int \<Rightarrow> (error + Inode) \<times> fileobj" where
  "read_inode f sb inode_id =
     (case inode_offset sb inode_id of
        Inl e \<Rightarrow> (Inl e, f)
      | Inr off \<Rightarrow>
          (case seek f off of
             (Inl e, f1) \<Rightarrow> (Inl e, f1)
           | (Inr u, f1) \<Rightarrow>
               (case read_exact f1 INODE_SIZE of
                  (Inl e, f2) \<Rightarrow> (Inl e, f2)
                | (Inr raw, f2) \<Rightarrow> (Inr (unpack_inode raw), f2))))"

section \<open>Paths and directories\<close>

text \<open>The loop of \<^verbatim>\<open>split_path\<close> over the characters, with its two variables
  \<open>comps\<close> and \<open>cur\<close>, and the flush after the loop.\<close>

fun split_loop :: "string list \<Rightarrow> string \<Rightarrow> string \<Rightarrow> string list" where
  "split_loop comps cur [] = (if cur \<noteq> [] then comps @ [cur] else comps)"
| "split_loop comps cur (ch # rest) =
     (if ch = CHR ''/'' then
        (if cur \<noteq> [] then split_loop (comps @ [cur]) [] rest
         else split_loop comps cur rest)
      else split_loop comps (cur @ [ch]) rest)"

definition split_path :: "string \<Rightarrow> string list" where
  "split_path path = split_loop [] [] path"

text \<open>
  \<^verbatim>\<open>parse_dir_block\<close>: 64-byte records, a 4-byte inode id and a 60-byte name buffer cut
  at its first zero byte. The text codec (\<^verbatim>\<open>decode("utf-8", errors="replace")\<close>, Python's
  library) is the parameter \<open>dec\<close>.
\<close>

function parse_dir_block :: "(byte list \<Rightarrow> string) \<Rightarrow> byte list \<Rightarrow> (int \<times> string) list" where
  "parse_dir_block dec block =
     (if block = [] then []
      else
        (let chunk = take DIRENTRY_SIZE block in
         if length chunk \<noteq> DIRENTRY_SIZE then []
         else
           (let inode_id = u32_at chunk 0; name_raw = drop 4 chunk in
            if inode_id = 0 then parse_dir_block dec (drop DIRENTRY_SIZE block)
            else (inode_id, dec (takeWhile (\<lambda>b. b \<noteq> 0) name_raw))
                   # parse_dir_block dec (drop DIRENTRY_SIZE block))))"
  by pat_completeness auto
termination
  by (relation "measure (\<lambda>(dec, block). length block)") (auto simp: DIRENTRY_SIZE_def)

text \<open>The inner loop of \<^verbatim>\<open>resolve_path\<close>: the first entry with the name, or \<open>None\<close>.\<close>

fun find_child :: "(int \<times> string) list \<Rightarrow> string \<Rightarrow> int option" where
  "find_child [] name = None"
| "find_child ((child_id, child_name) # entries) name =
     (if child_name = name then Some child_id else find_child entries name)"

text \<open>The body of the loop over the components: from the inode \<open>current\<close> to the
  child called \<open>name\<close>.\<close>

definition resolve_step ::
  "(byte list \<Rightarrow> string) \<Rightarrow> fileobj \<Rightarrow> SuperBlock \<Rightarrow> int \<Rightarrow> string \<Rightarrow> (error + int) \<times> fileobj" where
  "resolve_step dec f sb current name =
     (case read_inode f sb current of
        (Inl e, f1) \<Rightarrow> (Inl e, f1)
      | (Inr ino, f1) \<Rightarrow>
          if \<not> is_dir ino then (Inl NotADirectory, f1)
          else
            (case py_get (direct ino) 0 of
               Inl e \<Rightarrow> (Inl e, f1)
             | Inr d0 \<Rightarrow>
                 if d0 = 0 then (Inl EmptyDirectory, f1)
                 else
                   (case read_block f1 sb d0 of
                      (Inl e, f2) \<Rightarrow> (Inl e, f2)
                    | (Inr blk, f2) \<Rightarrow>
                        (case find_child (parse_dir_block dec blk) name of
                           None \<Rightarrow> (Inl PathNotFound, f2)
                         | Some nxt \<Rightarrow> (Inr nxt, f2)))))"

fun resolve_loop ::
  "(byte list \<Rightarrow> string) \<Rightarrow> fileobj \<Rightarrow> SuperBlock \<Rightarrow> int \<Rightarrow> string list \<Rightarrow> (error + int) \<times> fileobj" where
  "resolve_loop dec f sb current [] = (Inr current, f)"
| "resolve_loop dec f sb current (name # comps) =
     (case resolve_step dec f sb current name of
        (Inl e, f1) \<Rightarrow> (Inl e, f1)
      | (Inr nxt, f1) \<Rightarrow> resolve_loop dec f1 sb nxt comps)"

definition resolve_path ::
  "(byte list \<Rightarrow> string) \<Rightarrow> fileobj \<Rightarrow> SuperBlock \<Rightarrow> string \<Rightarrow> (error + int) \<times> fileobj" where
  "resolve_path dec f sb path =
     (if path = [] \<or> path = ''/'' then (Inr (rootInodeId sb), f)
      else
        (let comps = split_path path in
         if comps = [] then (Inl InvalidPath, f)
         else resolve_loop dec f sb (rootInodeId sb) comps))"

text \<open>The loop of \<^verbatim>\<open>list_dir\<close> over the entries: the child's inode is read for its
  flag, and a directory's name gets a trailing separator.\<close>

fun list_loop ::
  "fileobj \<Rightarrow> SuperBlock \<Rightarrow> (int \<times> string) list \<Rightarrow> string list \<Rightarrow> (error + string list) \<times> fileobj" where
  "list_loop f sb [] out = (Inr out, f)"
| "list_loop f sb ((child_id, child_name) # entries) out =
     (case read_inode f sb child_id of
        (Inl e, f1) \<Rightarrow> (Inl e, f1)
      | (Inr child, f1) \<Rightarrow>
          list_loop f1 sb entries (out @ [child_name @ (if is_dir child then ''/'' else [])]))"

definition list_dir ::
  "(byte list \<Rightarrow> string) \<Rightarrow> fileobj \<Rightarrow> SuperBlock \<Rightarrow> string \<Rightarrow> (error + string list) \<times> fileobj" where
  "list_dir dec f sb path =
     (case resolve_path dec f sb path of
        (Inl e, f1) \<Rightarrow> (Inl e, f1)
      | (Inr inode_id, f1) \<Rightarrow>
          (case read_inode f1 sb inode_id of
             (Inl e, f2) \<Rightarrow> (Inl e, f2)
           | (Inr ino, f2) \<Rightarrow>
               if \<not> is_dir ino then (Inl NotADirectory, f2)
               else
                 (case py_get (direct ino) 0 of
                    Inl e \<Rightarrow> (Inl e, f2)
                  | Inr d0 \<Rightarrow>
                      if d0 = 0 then (Inr [], f2)
                      else
                        (case read_block f2 sb d0 of
                           (Inl e, f3) \<Rightarrow> (Inl e, f3)
                         | (Inr blk, f3) \<Rightarrow> list_loop f3 sb (parse_dir_block dec blk) []))))"

section \<open>File contents and the bitmap\<close>

text \<open>The loop of \<^verbatim>\<open>read_file_content\<close> over the direct blocks, with its variables
  \<open>remaining\<close> and \<open>chunks\<close>; both \<^verbatim>\<open>break\<close>s leave it with the state reached.\<close>

fun content_loop ::
  "fileobj \<Rightarrow> SuperBlock \<Rightarrow> int list \<Rightarrow> int \<Rightarrow> byte list list
     \<Rightarrow> (error + int \<times> byte list list) \<times> fileobj" where
  "content_loop f sb [] remaining chunks = (Inr (remaining, chunks), f)"
| "content_loop f sb (block_id # blocks) remaining chunks =
     (if remaining \<le> 0 then (Inr (remaining, chunks), f)
      else if block_id = 0 then (Inr (remaining, chunks), f)
      else
        (case read_block f sb block_id of
           (Inl e, f1) \<Rightarrow> (Inl e, f1)
         | (Inr blk, f1) \<Rightarrow>
             (let take_n = min remaining (blockSize sb) in
              content_loop f1 sb blocks (remaining - take_n) (chunks @ [py_prefix blk take_n]))))"

definition read_file_content ::
  "(byte list \<Rightarrow> string) \<Rightarrow> fileobj \<Rightarrow> SuperBlock \<Rightarrow> string \<Rightarrow> (error + byte list) \<times> fileobj" where
  "read_file_content dec f sb path =
     (case resolve_path dec f sb path of
        (Inl e, f1) \<Rightarrow> (Inl e, f1)
      | (Inr inode_id, f1) \<Rightarrow>
          (case read_inode f1 sb inode_id of
             (Inl e, f2) \<Rightarrow> (Inl e, f2)
           | (Inr ino, f2) \<Rightarrow>
               if is_dir ino then (Inl IsADirectory, f2)
               else
                 (case content_loop f2 sb (direct ino) (size_ino ino) [] of
                    (Inl e, f3) \<Rightarrow> (Inl e, f3)
                  | (Inr (remaining, chunks), f3) \<Rightarrow>
                      if remaining \<noteq> 0 then (Inl TruncatedFile, f3)
                      else (Inr (concat chunks), f3))))"

text \<open>The inner loop of \<^verbatim>\<open>bitmap_stats\<close>: \<open>n\<close> iterations over the bits of one block,
  with the running \<open>bit_index\<close> and \<open>used\<close>.\<close>

fun bits_loop :: "byte list \<Rightarrow> nat \<Rightarrow> int \<Rightarrow> int \<Rightarrow> error + int \<times> int" where
  "bits_loop bmp 0 bit_index used = Inr (bit_index, used)"
| "bits_loop bmp (Suc n) bit_index used =
     (case py_get bmp (bit_index div 8) of
        Inl e \<Rightarrow> Inl e
      | Inr byte \<Rightarrow>
          bits_loop bmp n (bit_index + 1)
            (if (drop_bit (nat (bit_index mod 8)) (uint byte)) AND 1 \<noteq> 0 then used + 1 else used))"

text \<open>The outer loop, over \<^verbatim>\<open>range(sb.freeBitmapBlocks)\<close>.\<close>

fun bitmap_loop ::
  "fileobj \<Rightarrow> SuperBlock \<Rightarrow> int list \<Rightarrow> int \<Rightarrow> int \<Rightarrow> int \<Rightarrow> (error + int) \<times> fileobj" where
  "bitmap_loop f sb [] remaining bit_index used = (Inr used, f)"
| "bitmap_loop f sb (b # bs) remaining bit_index used =
     (if remaining \<le> 0 then (Inr used, f)
      else
        (case read_block f sb (freeBitmapStart sb + b) of
           (Inl e, f1) \<Rightarrow> (Inl e, f1)
         | (Inr bmp, f1) \<Rightarrow>
             (let bits_in_this_block = min (int (length bmp) * 8) remaining in
              case bits_loop bmp (nat bits_in_this_block) bit_index used of
                Inl e \<Rightarrow> (Inl e, f1)
              | Inr (bit_index', used') \<Rightarrow>
                  bitmap_loop f1 sb bs (remaining - bits_in_this_block) bit_index' used')))"

definition bitmap_stats :: "fileobj \<Rightarrow> SuperBlock \<Rightarrow> (error + int \<times> int \<times> int) \<times> fileobj" where
  "bitmap_stats f sb =
     (case bitmap_loop f sb [0..freeBitmapBlocks sb - 1] (dataBlockCount sb) 0 0 of
        (Inl e, f1) \<Rightarrow> (Inl e, f1)
      | (Inr used, f1) \<Rightarrow>
          (let total = dataBlockCount sb in (Inr (total, used, total - used), f1)))"

section \<open>Notions used to state the properties\<close>

text \<open>Two states of a handle on the same file, and an offset the handle can seek to.\<close>

definition same_file :: "fileobj \<Rightarrow> fileobj \<Rightarrow> bool" where
  "same_file g f \<longleftrightarrow> data g = data f \<and> max_offset g = max_offset f"

definition seekable :: "fileobj \<Rightarrow> int \<Rightarrow> bool" where
  "seekable f off \<longleftrightarrow> 0 \<le> off \<and> off < INT64_LIMIT \<and> off < max_offset f"

text \<open>The image format in the words of its description: a 4-byte little-endian unsigned
  integer at a byte offset, and the superblock as eleven of them in field order.\<close>

definition le32_spec :: "byte list \<Rightarrow> nat \<Rightarrow> int" where
  "le32_spec d off =
     uint (d ! off) + uint (d ! (off + 1)) * 2 ^ 8 + uint (d ! (off + 2)) * 2 ^ 16
       + uint (d ! (off + 3)) * 2 ^ 24"

definition superblock_spec :: "byte list \<Rightarrow> SuperBlock" where
  "superblock_spec d =
     \<lparr>magic = le32_spec d 0, blockSize = le32_spec d 4, totalBlocks = le32_spec d 8,
      inodeTableStart = le32_spec d 12, inodeTableBlocks = le32_spec d 16,
      inodeCount = le32_spec d 20, freeBitmapStart = le32_spec d 24,
      freeBitmapBlocks = le32_spec d 28, dataBlockStart = le32_spec d 32,
      dataBlockCount = le32_spec d 36, rootInodeId = le32_spec d 40\<rparr>"

text \<open>The \<open>j\<close>-th 64-byte directory record of a block: its 4-byte inode id and the text
  of its 60-byte name buffer up to the first zero byte.\<close>

definition slot_id :: "byte list \<Rightarrow> nat \<Rightarrow> int" where
  "slot_id blk j = u32_at blk (64 * j)"

definition slot_name :: "(byte list \<Rightarrow> string) \<Rightarrow> byte list \<Rightarrow> nat \<Rightarrow> string" where
  "slot_name dec blk j = dec (takeWhile (\<lambda>b. b \<noteq> 0) (take 60 (drop (64 * j + 4) blk)))"

text \<open>The leading non-zero direct blocks of an inode, the bytes an image holds for a
  block, and "every block the content loop visits can be read": block \<open>k\<close> of the leading
  ones is visited when the \<open>k\<close> blocks before it hold less than the recorded size.\<close>

definition leading_blocks :: "Inode \<Rightarrow> int list" where
  "leading_blocks ino = takeWhile (\<lambda>b. b \<noteq> 0) (direct ino)"

definition block_bytes :: "byte list \<Rightarrow> SuperBlock \<Rightarrow> int \<Rightarrow> byte list" where
  "block_bytes d sb b = take (nat (blockSize sb)) (drop (nat (b * blockSize sb)) d)"

definition visited_readable :: "fileobj \<Rightarrow> SuperBlock \<Rightarrow> Inode \<Rightarrow> bool" where
  "visited_readable f sb ino \<longleftrightarrow>
     (\<forall>k \<in> {0..<length (leading_blocks ino)}.
        int k * blockSize sb < size_ino ino
          \<longrightarrow> \<not> isl (fst (read_block f sb (leading_blocks ino ! k))))"

text \<open>For a directory block: "the inode of every live record can be read", a name with
  the marker of a directory appended when the child's inode says so, and the listing one
  expects, record by record in on-disk order without the unused ones.\<close>

definition children_readable :: "fileobj \<Rightarrow> SuperBlock \<Rightarrow> byte list \<Rightarrow> bool" where
  "children_readable f sb blk \<longleftrightarrow>
     (\<forall>j \<in> {0..<length blk div 64}.
        slot_id blk j \<noteq> 0 \<longrightarrow> \<not> isl (fst (read_inode f sb (slot_id blk j))))"

definition annotated :: "fileobj \<Rightarrow> SuperBlock \<Rightarrow> int \<Rightarrow> string \<Rightarrow> string" where
  "annotated f sb child_id child_name =
     child_name @ (if is_dir (projr (fst (read_inode f sb child_id))) then ''/'' else [])"

definition expected_listing ::
  "(byte list \<Rightarrow> string) \<Rightarrow> fileobj \<Rightarrow> SuperBlock \<Rightarrow> byte list \<Rightarrow> string list" where
  "expected_listing dec f sb blk =
     map (\<lambda>j. annotated f sb (slot_id blk j) (slot_name dec blk j))
       (filter (\<lambda>j. slot_id blk j \<noteq> 0) [0..<length blk div 64])"

text \<open>The separator-delimited fields of a path, empty ones included (what splitting at
  every separator gives).\<close>

fun sep_fields :: "string \<Rightarrow> string list" where
  "sep_fields [] = [[]]"
| "sep_fields (ch # rest) =
     (if ch = CHR ''/'' then [] # sep_fields rest
      else (case sep_fields rest of [] \<Rightarrow> [[ch]] | x # xs \<Rightarrow> (ch # x) # xs))"

section \<open>A sample image\<close>

text \<open>
  Ten blocks of 256 bytes: the superblock, two inode-table blocks (five inodes each), one
  bitmap block and six data blocks. The root directory (inode 0) holds \<open>sub\<close>, \<open>bad\<close>,
  \<open>hello.txt\<close> and \<open>short\<close>; \<open>sub\<close> holds an unused slot and two live entries that
  share the name \<open>dup\<close>; \<open>bad\<close> holds an entry for an inode beyond the table, a file
  whose block pointer is beyond the image and a file of two blocks; \<open>short\<close> is a file whose
  size is more than its one leading block holds. The sample codec decodes ASCII.
\<close>

definition enc32 :: "int \<Rightarrow> byte list" where
  "enc32 n = [word_of_int n, word_of_int (n div 256), word_of_int (n div 65536),
              word_of_int (n div 16777216)]"

definition mk_inode :: "int \<Rightarrow> bool \<Rightarrow> int \<Rightarrow> int list \<Rightarrow> byte list" where
  "mk_inode i d s bl = enc32 i @ [if d then 1 else 0, 0, 0, 0] @ enc32 s @ concat (map enc32 bl)"

definition mk_entry :: "int \<Rightarrow> string \<Rightarrow> byte list" where
  "mk_entry i name = enc32 i @ map of_char name @ replicate (60 - length name) 0"

definition ascii_dec :: "byte list \<Rightarrow> string" where
  "ascii_dec bs = map (\<lambda>b. char_of (unat b)) bs"

definition sb0 :: SuperBlock where
  "sb0 = \<lparr>magic = 0x20251205, blockSize = 256, totalBlocks = 10, inodeTableStart = 1,
     inodeTableBlocks = 2, inodeCount = 7, freeBitmapStart = 3, freeBitmapBlocks = 1,
     dataBlockStart = 4, dataBlockCount = 6, rootInodeId = 0\<rparr>"

definition blk_sb :: "byte list" where
  "blk_sb = concat (map enc32 [0x20251205, 256, 10, 1, 2, 7, 3, 1, 4, 6, 0]) @ replicate 212 0"

definition ino0 :: "byte list" where "ino0 = mk_inode 0 True 0 [4, 0, 0, 0, 0, 0, 0, 0]"
definition ino1 :: "byte list" where "ino1 = mk_inode 1 True 0 [5, 0, 0, 0, 0, 0, 0, 0]"
definition ino2 :: "byte list" where "ino2 = mk_inode 2 False 5 [7, 0, 0, 0, 0, 0, 0, 0]"
definition ino3 :: "byte list" where "ino3 = mk_inode 3 False 300 [7, 8, 0, 0, 0, 0, 0, 0]"
definition ino4 :: "byte list" where "ino4 = mk_inode 4 True 0 [6, 0, 0, 0, 0, 0, 0, 0]"
definition ino5 :: "byte list" where "ino5 = mk_inode 5 False 300 [7, 0, 8, 0, 0, 0, 0, 0]"
definition ino6 :: "byte list" where "ino6 = mk_inode 6 False 300 [99, 0, 0, 0, 0, 0, 0, 0]"

definition blk_root :: "byte list" where
  "blk_root = mk_entry 1 ''sub'' @ mk_entry 4 ''bad'' @ mk_entry 2 ''hello.txt''
     @ mk_entry 5 ''short''"

definition blk_sub :: "byte list" where
  "blk_sub = mk_entry 0 ''dup'' @ mk_entry 2 ''dup'' @ mk_entry 3 ''dup'' @ mk_entry 1 ''me''"

definition blk_bad :: "byte list" where
  "blk_bad = mk_entry 9 ''ghost'' @ mk_entry 6 ''lost'' @ mk_entry 3 ''big'' @ mk_entry 0 []"

definition blk_hello :: "byte list" where
  "blk_hello = map of_char ''hello'' @ replicate 251 0"

definition blk_world :: "byte list" where
  "blk_world = map of_char ''world'' @ replicate 251 1"

definition img0 :: "byte list" where
  "img0 = blk_sb @ (ino0 @ ino1 @ ino2 @ ino3 @ ino4 @ replicate 36 0)
     @ (ino5 @ ino6 @ replicate 168 0) @ (63 # replicate 255 0)
     @ blk_root @ blk_sub @ blk_bad @ blk_hello @ blk_world @ replicate 256 0"

definition f0 :: fileobj where
  "f0 = \<lparr>data = img0, max_offset = 2 ^ 44, pos = 0, trace = []\<rparr>"

text \<open>
  A second image, with a bitmap of two blocks: blocks of 64 bytes, so one bitmap block
  covers 512 data blocks, and 513 data blocks.
\<close>

definition sb_multi :: SuperBlock where
  "sb_multi = \<lparr>magic = 0x20251205, blockSize = 64, totalBlocks = 517, inodeTableStart = 1,
     inodeTableBlocks = 1, inodeCount = 1, freeBitmapStart = 2, freeBitmapBlocks = 2,
     dataBlockStart = 4, dataBlockCount = 513, rootInodeId = 0\<rparr>"

definition img_multi :: "byte list" where
  "img_multi =
     (concat (map enc32 [0x20251205, 64, 517, 1, 1, 1, 2, 2, 4, 513, 0]) @ replicate 20 0)
     @ (mk_inode 0 True 0 [4, 0, 0, 0, 0, 0, 0, 0] @ replicate 20 0)
     @ (1 # replicate 63 0) @ replicate 64 0
     @ replicate (513 * 64) 0"

definition f_multi :: fileobj where
  "f_multi = \<lparr>data = img_multi, max_offset = 2 ^ 44, pos = 0, trace = []\<rparr>"

text \<open>
  A third image: nothing but a superblock, with the largest block size and block count
  that 32 bits hold.
\<close>

definition sb_huge :: SuperBlock where
  "sb_huge = \<lparr>magic = 0x20251205, blockSize = 4294967295, totalBlocks = 4294967295,
     inodeTableStart = 1, inodeTableBlocks = 1, inodeCount = 1, freeBitmapStart = 2,
     freeBitmapBlocks = 1, dataBlockStart = 3, dataBlockCount = 1, rootInodeId = 0\<rparr>"

definition img_huge :: "byte list" where
  "img_huge = concat (map enc32 [0x20251205, 4294967295, 4294967295, 1, 1, 1, 2, 1, 3, 1, 0])"

definition f_huge :: fileobj where
  "f_huge = \<lparr>data = img_huge, max_offset = 2 ^ 44, pos = 0, trace = []\<rparr>"

section \<open>Reading bytes, blocks and inodes\<close>

declare parse_dir_block.simps [simp del]

lemma same_file_refl [simp]: "same_file f f"
  by (simp add: same_file_def)

lemma same_file_trans: "same_file h g \<Longrightarrow> same_file g f \<Longrightarrow> same_file h f"
  by (simp add: same_file_def)

lemma same_file_data: "same_file g f \<Longrightarrow> data g = data f"
  by (simp add: same_file_def)

lemma seek_same [simp]: "same_file (snd (seek f off)) f"
  by (simp add: seek_def same_file_def)

lemma read_exact_same [simp]: "same_file (snd (read_exact f n)) f"
  by (simp add: read_exact_def read_def Let_def same_file_def)

lemma read_exact_ok:
  assumes "0 \<le> n" "n < INT64_LIMIT" "int (pos f) + n \<le> int (length (data f))"
  shows "read_exact f n =
    (Inr (take (nat n) (drop (pos f) (data f))),
     f\<lparr>pos := pos f + nat n, trace := trace f @ [Read n]\<rparr>)"
proof -
  have "length (take (nat n) (drop (pos f) (data f))) = nat n"
    using assms by simp
  moreover have "\<not> n < - INT64_LIMIT" "\<not> INT64_LIMIT \<le> n" "\<not> n < - 1" "n \<noteq> - 1"
    using assms by (simp_all add: INT64_LIMIT_def)
  ultimately show ?thesis
    using assms(1) by (simp add: read_exact_def read_def Let_def)
qed

lemma read_exact_short:
  assumes "0 < n" "n < INT64_LIMIT" "int (length (data f)) < int (pos f) + n"
  shows "fst (read_exact f n) = Inl ShortRead"
proof -
  have "int (length (take (nat n) (drop (pos f) (data f)))) \<noteq> n"
    using assms by (simp add: min_def)
  moreover have "\<not> n < - INT64_LIMIT" "\<not> INT64_LIMIT \<le> n" "\<not> n < - 1" "n \<noteq> - 1"
    using assms by (simp_all add: INT64_LIMIT_def)
  ultimately show ?thesis
    by (simp add: read_exact_def read_def Let_def)
qed

lemma read_exact_length:
  assumes "read_exact f n = (Inr d, f')"
  shows "int (length d) = n"
  using assms
  by (auto simp add: read_exact_def split: prod.splits sum.splits if_splits)

lemma read_exact_fst:
  assumes "same_file g f" and "pos g = pos f"
  shows "fst (read_exact g n) = fst (read_exact f n)"
  using assms by (simp add: read_exact_def read_def Let_def same_file_def)

lemma seek_seekable:
  assumes "seekable f off"
  shows "seek f off = (Inr (), f\<lparr>pos := nat off, trace := trace f @ [Seek off]\<rparr>)"
proof -
  have "\<not> off < - INT64_LIMIT" "\<not> INT64_LIMIT \<le> off" "\<not> off < 0" "\<not> max_offset f \<le> off"
    using assms by (simp_all add: seekable_def INT64_LIMIT_def)
  then show ?thesis by (simp add: seek_def)
qed

lemma seek_not_seekable:
  assumes "\<not> seekable f off"
  shows "seek f off =
    (Inl (if off < - INT64_LIMIT \<or> INT64_LIMIT \<le> off then SeekOverflow else SeekError), f)"
  using assms by (auto simp add: seek_def seekable_def)

lemma read_block_same [simp]: "same_file (snd (read_block f sb b)) f"
proof (cases "seekable f (file_offset_of_block sb b)")
  case True
  let ?f1 = "f\<lparr>pos := nat (file_offset_of_block sb b),
    trace := trace f @ [Seek (file_offset_of_block sb b)]\<rparr>"
  have "same_file (snd (read_exact ?f1 (blockSize sb))) ?f1" by simp
  then have "same_file (snd (read_exact ?f1 (blockSize sb))) f"
    by (simp add: same_file_def)
  then show ?thesis
    by (simp add: read_block_def seek_seekable [OF True])
next
  case False
  then show ?thesis
    by (simp add: read_block_def seek_not_seekable)
qed

lemma read_block_range:
  assumes "b < 0 \<or> totalBlocks sb \<le> b"
  shows "read_block f sb b = (Inl BlockOutOfRange, f)"
  using assms by (auto simp add: read_block_def)

lemma read_block_unseekable:
  assumes "0 \<le> b" "b < totalBlocks sb" and "\<not> seekable f (b * blockSize sb)"
  shows "read_block f sb b =
    (Inl (if b * blockSize sb < - INT64_LIMIT \<or> INT64_LIMIT \<le> b * blockSize sb
          then SeekOverflow else SeekError), f)"
  using assms
  by (simp add: read_block_def file_offset_of_block_def seek_not_seekable)

lemma read_block_ok:
  assumes "0 \<le> b" "b < totalBlocks sb" "0 \<le> blockSize sb" "blockSize sb < INT64_LIMIT"
    and "seekable f (b * blockSize sb)"
    and "b * blockSize sb + blockSize sb \<le> int (length (data f))"
  shows "read_block f sb b =
    (Inr (take (nat (blockSize sb)) (drop (nat (b * blockSize sb)) (data f))),
     f\<lparr>pos := nat (b * blockSize sb) + nat (blockSize sb),
       trace := trace f @ [Seek (b * blockSize sb), Read (blockSize sb)]\<rparr>)"
proof -
  have off: "0 \<le> b * blockSize sb" using assms(5) by (simp add: seekable_def)
  let ?f1 = "f\<lparr>pos := nat (b * blockSize sb), trace := trace f @ [Seek (b * blockSize sb)]\<rparr>"
  have "int (pos ?f1) + blockSize sb \<le> int (length (data ?f1))"
    using assms(6) off by simp
  with assms(3,4) have "read_exact ?f1 (blockSize sb) =
    (Inr (take (nat (blockSize sb)) (drop (pos ?f1) (data ?f1))),
     ?f1\<lparr>pos := pos ?f1 + nat (blockSize sb), trace := trace ?f1 @ [Read (blockSize sb)]\<rparr>)"
    by (rule read_exact_ok)
  then show ?thesis
    using assms(1,2)
    by (simp add: read_block_def file_offset_of_block_def seek_seekable [OF assms(5)])
qed

lemma read_block_short:
  assumes "0 \<le> b" "b < totalBlocks sb" "0 \<le> blockSize sb" "blockSize sb < INT64_LIMIT"
    and "seekable f (b * blockSize sb)"
    and "int (length (data f)) < b * blockSize sb + blockSize sb"
  shows "fst (read_block f sb b) = Inl ShortRead"
proof -
  have off: "0 \<le> b * blockSize sb" using assms(5) by (simp add: seekable_def)
  let ?f1 = "f\<lparr>pos := nat (b * blockSize sb), trace := trace f @ [Seek (b * blockSize sb)]\<rparr>"
  have pos: "0 < blockSize sb"
  proof (rule ccontr)
    assume "\<not> 0 < blockSize sb"
    with assms(3) have "blockSize sb = 0" by simp
    with assms(6) show False by simp
  qed
  have "int (length (data ?f1)) < int (pos ?f1) + blockSize sb"
    using assms(6) off by simp
  with pos assms(4) have "fst (read_exact ?f1 (blockSize sb)) = Inl ShortRead"
    by (rule read_exact_short)
  then show ?thesis
    using assms(1,2)
    by (simp add: read_block_def file_offset_of_block_def seek_seekable [OF assms(5)])
qed

lemma read_block_length:
  assumes "read_block f sb b = (Inr blk, f')"
  shows "int (length blk) = blockSize sb"
proof (cases "seekable f (file_offset_of_block sb b)")
  case True
  then show ?thesis
    using assms
    by (auto simp add: read_block_def seek_seekable split: if_splits dest: read_exact_length)
next
  case False
  then show ?thesis
    using assms by (auto simp add: read_block_def seek_not_seekable split: if_splits)
qed

lemma read_block_fst:
  assumes "same_file g f"
  shows "fst (read_block g sb b) = fst (read_block f sb b)"
proof -
  let ?off = "file_offset_of_block sb b"
  have sk: "seekable g ?off = seekable f ?off"
    using assms by (simp add: seekable_def same_file_def)
  show ?thesis
  proof (cases "seekable f ?off")
    case True
    then have g: "seekable g ?off" using sk by simp
    have "fst (read_exact (g\<lparr>pos := nat ?off, trace := trace g @ [Seek ?off]\<rparr>) (blockSize sb))
        = fst (read_exact (f\<lparr>pos := nat ?off, trace := trace f @ [Seek ?off]\<rparr>) (blockSize sb))"
      using assms by (intro read_exact_fst) (simp_all add: same_file_def)
    then show ?thesis
      by (simp add: read_block_def seek_seekable [OF True] seek_seekable [OF g])
  next
    case False
    then have g: "\<not> seekable g ?off" using sk by simp
    show ?thesis
      by (simp add: read_block_def seek_not_seekable [OF False] seek_not_seekable [OF g])
  qed
qed

lemma le_nonneg: "0 \<le> le bs"
  by (induction bs) simp_all

lemma u32_at_nonneg: "0 \<le> u32_at raw off"
  by (simp add: u32_at_def le_nonneg)

lemma take4_drop:
  assumes "off + 4 \<le> length d"
  shows "take 4 (drop off d) = [d ! off, d ! (off + 1), d ! (off + 2), d ! (off + 3)]"
proof -
  have "length (take 4 (drop off d)) = 4" using assms by simp
  moreover have "\<And>k. k < 4 \<Longrightarrow> take 4 (drop off d) ! k = d ! (off + k)"
    using assms by simp
  ultimately show ?thesis
    by (intro nth_equalityI) (auto simp: nth_Cons' numeral_eq_Suc less_Suc_eq)
qed

lemma u32_at_spec:
  assumes "off + 4 \<le> length d"
  shows "u32_at d off = le32_spec d off"
  by (simp add: u32_at_def take4_drop [OF assms] le32_spec_def)

lemma u32_at_take:
  assumes "off + 4 \<le> n"
  shows "u32_at (take n d) off = u32_at d off"
proof -
  have "take 4 (drop off (take n d)) = take 4 (drop off d)"
    using assms by (simp add: drop_take min_def)
  then show ?thesis by (simp add: u32_at_def)
qed

lemma u32_at_drop: "u32_at (drop m d) off = u32_at d (m + off)"
  by (simp add: u32_at_def add.commute)

lemma read_inode_same [simp]: "same_file (snd (read_inode f sb i)) f"
proof (cases "inode_offset sb i")
  case (Inl e)
  then show ?thesis by (simp add: read_inode_def)
next
  case (Inr off)
  show ?thesis
  proof (cases "seekable f off")
    case True
    let ?f1 = "f\<lparr>pos := nat off, trace := trace f @ [Seek off]\<rparr>"
    have "same_file (snd (read_exact ?f1 INODE_SIZE)) ?f1" by simp
    then have "same_file (snd (read_exact ?f1 INODE_SIZE)) f"
      by (simp add: same_file_def)
    then show ?thesis
      by (auto simp add: read_inode_def Inr seek_seekable [OF True] split: prod.splits sum.splits)
  next
    case False
    then show ?thesis
      by (simp add: read_inode_def Inr seek_not_seekable)
  qed
qed

lemma read_inode_fst:
  assumes "same_file g f"
  shows "fst (read_inode g sb i) = fst (read_inode f sb i)"
proof (cases "inode_offset sb i")
  case (Inl e)
  then show ?thesis by (simp add: read_inode_def)
next
  case (Inr off)
  have sk: "seekable g off = seekable f off"
    using assms by (simp add: seekable_def same_file_def)
  show ?thesis
  proof (cases "seekable f off")
    case True
    then have g: "seekable g off" using sk by simp
    have "fst (read_exact (g\<lparr>pos := nat off, trace := trace g @ [Seek off]\<rparr>) INODE_SIZE)
        = fst (read_exact (f\<lparr>pos := nat off, trace := trace f @ [Seek off]\<rparr>) INODE_SIZE)"
      using assms by (intro read_exact_fst) (simp_all add: same_file_def)
    then show ?thesis
      by (auto simp add: read_inode_def Inr seek_seekable [OF True] seek_seekable [OF g]
          split: prod.splits sum.splits)
  next
    case False
    then have g: "\<not> seekable g off" using sk by simp
    show ?thesis
      by (simp add: read_inode_def Inr seek_not_seekable [OF False] seek_not_seekable [OF g])
  qed
qed

lemma read_inode_success:
  assumes "read_inode f sb i = (Inr ino, f')"
  shows "\<exists>off. inode_offset sb i = Inr off \<and> trace f' = trace f @ [Seek off, Read INODE_SIZE]"
proof (cases "inode_offset sb i")
  case (Inl e)
  with assms show ?thesis by (simp add: read_inode_def)
next
  case (Inr off)
  show ?thesis
  proof (cases "seekable f off")
    case True
    then show ?thesis
      using assms Inr
      by (auto simp add: read_inode_def seek_seekable read_exact_def read_def Let_def
          split: sum.splits if_splits prod.splits)
  next
    case False
    then show ?thesis
      using assms Inr by (simp add: read_inode_def seek_not_seekable)
  qed
qed

lemma read_inode_shape:
  assumes "fst (read_inode f sb i) = Inr ino"
  shows "length (direct ino) = 8" and "0 \<le> size_ino ino"
proof -
  have "\<exists>raw. ino = unpack_inode raw"
    using assms
    by (auto simp add: read_inode_def split: sum.splits prod.splits)
  then show "length (direct ino) = 8" and "0 \<le> size_ino ino"
    by (auto simp add: unpack_inode_def u32_at_nonneg)
qed

section \<open>The superblock, inode addressing and the block accessor\<close>

lemma unpack_superblock_spec:
  assumes "44 \<le> length d"
  shows "unpack_superblock (take 44 d) = superblock_spec d"
  using assms
  by (simp add: unpack_superblock_def superblock_spec_def u32_at_take)
     (simp add: u32_at_spec)

lemma read_superblock_eval:
  assumes "pos f = 0" and "44 \<le> length (data f)"
  shows "fst (read_superblock f) =
    (if magic (superblock_spec (data f)) \<noteq> FS_MAGIC then Inl BadMagic
     else if blockSize (superblock_spec (data f)) \<le> 0 \<or> totalBlocks (superblock_spec (data f)) \<le> 0
       then Inl InvalidGeometry
     else Inr (superblock_spec (data f)))"
proof -
  have "read_exact f 44 =
      (Inr (take (nat 44) (drop (pos f) (data f))),
       f\<lparr>pos := pos f + nat 44, trace := trace f @ [Read 44]\<rparr>)"
    by (rule read_exact_ok) (use assms in \<open>simp_all add: INT64_LIMIT_def\<close>)
  then show ?thesis
    using assms by (simp add: read_superblock_def Let_def unpack_superblock_spec)
qed

text \<open>
  Claim C5. On a freshly opened image of at least 44 bytes, \<open>read_superblock\<close> decodes the
  first 44 bytes as eleven consecutive little-endian 4-byte unsigned integers in the field
  order of the superblock. It fails with \<open>BadMagic\<close> when the decoded magic differs from
  \<open>FS_MAGIC\<close>, with \<open>InvalidGeometry\<close> when \<open>blockSize \<le> 0\<close> or \<open>totalBlocks \<le> 0\<close>, and
  in every other case returns the decoded superblock: no other field is looked at.
\<close>

theorem read_superblock_decodes:
  assumes "pos f = 0" and "44 \<le> length (data f)"
  shows "fst (read_superblock f) =
    (if magic (superblock_spec (data f)) \<noteq> FS_MAGIC then Inl BadMagic
     else if blockSize (superblock_spec (data f)) \<le> 0 \<or> totalBlocks (superblock_spec (data f)) \<le> 0
       then Inl InvalidGeometry
     else Inr (superblock_spec (data f)))"
  using assms by (rule read_superblock_eval)

text \<open>
  Claim C4. \<open>inode_offset\<close> fails with \<open>InvalidLayout\<close> when \<open>blockSize div 44\<close> is zero
  (or less); when a block holds at least one inode record, it fails with
  \<open>InodeOutOfRange\<close> for an inode id outside \<open>[0, inodeCount)\<close>, with \<open>GeometryMismatch\<close>
  when \<open>inode_id div inodes_per_block \<ge> inodeTableBlocks\<close>, and otherwise returns
  \<open>(inodeTableStart + inode_id div inodes_per_block) * blockSize
     + (inode_id mod inodes_per_block) * 44\<close>.
\<close>

theorem inode_offset_cases:
  "(blockSize sb div 44 \<le> 0 \<longrightarrow> inode_offset sb i = Inl InvalidLayout) \<and>
   (0 < blockSize sb div 44 \<and> (i < 0 \<or> inodeCount sb \<le> i)
      \<longrightarrow> inode_offset sb i = Inl InodeOutOfRange) \<and>
   (0 < blockSize sb div 44 \<and> 0 \<le> i \<and> i < inodeCount sb
      \<and> inodeTableBlocks sb \<le> i div (blockSize sb div 44)
      \<longrightarrow> inode_offset sb i = Inl GeometryMismatch) \<and>
   (0 < blockSize sb div 44 \<and> 0 \<le> i \<and> i < inodeCount sb
      \<and> i div (blockSize sb div 44) < inodeTableBlocks sb
      \<longrightarrow> inode_offset sb i =
            Inr ((inodeTableStart sb + i div (blockSize sb div 44)) * blockSize sb
                 + (i mod (blockSize sb div 44)) * 44))"
  by (simp add: inode_offset_def INODE_SIZE_def file_offset_of_block_def Let_def)

text \<open>
  Claim C6, as amended. \<open>read_block\<close> fails with \<open>BlockOutOfRange\<close> when the block id is
  not in \<open>[0, totalBlocks)\<close>. For a block id in range it seeks to \<open>block_id * blockSize\<close>:
  when the handle cannot seek there (the offset is no signed 64-bit integer, or is
  negative or beyond what the file system allows), it fails with the error of the seek.
  When it can, and the block size is a length that can be read, it fails with
  \<open>ShortRead\<close> when fewer than \<open>blockSize\<close> bytes are available at that offset, and
  otherwise returns exactly the \<open>blockSize\<close> bytes from that offset. Whatever the geometry,
  a block it returns has \<open>blockSize\<close> bytes: it never returns a partial block.
\<close>

theorem read_block_cases:
  "(b < 0 \<or> totalBlocks sb \<le> b \<longrightarrow> read_block f sb b = (Inl BlockOutOfRange, f)) \<and>
   (0 \<le> b \<and> b < totalBlocks sb \<and> \<not> seekable f (b * blockSize sb)
      \<longrightarrow> read_block f sb b
            = (Inl (if b * blockSize sb < - INT64_LIMIT \<or> INT64_LIMIT \<le> b * blockSize sb
                    then SeekOverflow else SeekError), f)) \<and>
   (0 \<le> b \<and> b < totalBlocks sb \<and> seekable f (b * blockSize sb)
      \<and> 0 \<le> blockSize sb \<and> blockSize sb < INT64_LIMIT
      \<and> int (length (data f)) < b * blockSize sb + blockSize sb
      \<longrightarrow> fst (read_block f sb b) = Inl ShortRead) \<and>
   (0 \<le> b \<and> b < totalBlocks sb \<and> seekable f (b * blockSize sb)
      \<and> 0 \<le> blockSize sb \<and> blockSize sb < INT64_LIMIT
      \<and> b * blockSize sb + blockSize sb \<le> int (length (data f))
      \<longrightarrow> fst (read_block f sb b)
            = Inr (take (nat (blockSize sb)) (drop (nat (b * blockSize sb)) (data f)))) \<and>
   (\<forall>blk. fst (read_block f sb b) = Inr blk \<longrightarrow> int (length blk) = blockSize sb)"
proof (intro conjI impI allI)
  assume "b < 0 \<or> totalBlocks sb \<le> b"
  then show "read_block f sb b = (Inl BlockOutOfRange, f)"
    by (rule read_block_range)
next
  assume "0 \<le> b \<and> b < totalBlocks sb \<and> \<not> seekable f (b * blockSize sb)"
  then show "read_block f sb b
      = (Inl (if b * blockSize sb < - INT64_LIMIT \<or> INT64_LIMIT \<le> b * blockSize sb
              then SeekOverflow else SeekError), f)"
    by (intro read_block_unseekable) simp_all
next
  assume "0 \<le> b \<and> b < totalBlocks sb \<and> seekable f (b * blockSize sb)
      \<and> 0 \<le> blockSize sb \<and> blockSize sb < INT64_LIMIT
      \<and> int (length (data f)) < b * blockSize sb + blockSize sb"
  then show "fst (read_block f sb b) = Inl ShortRead"
    by (intro read_block_short) simp_all
next
  assume "0 \<le> b \<and> b < totalBlocks sb \<and> seekable f (b * blockSize sb)
      \<and> 0 \<le> blockSize sb \<and> blockSize sb < INT64_LIMIT
      \<and> b * blockSize sb + blockSize sb \<le> int (length (data f))"
  then show "fst (read_block f sb b)
      = Inr (take (nat (blockSize sb)) (drop (nat (b * blockSize sb)) (data f)))"
    by (simp add: read_block_ok)
next
  fix blk
  assume "fst (read_block f sb b) = Inr blk"
  then have "read_block f sb b = (Inr blk, snd (read_block f sb b))"
    by (metis prod.collapse)
  then show "int (length blk) = blockSize sb"
    by (rule read_block_length)
qed

section \<open>Facts about the sample image\<close>

lemma length_enc32 [simp]: "length (enc32 n) = 4"
  by (simp add: enc32_def)

lemma length_mk_inode: "length bl = 8 \<Longrightarrow> length (mk_inode i d s bl) = 44"
  by (simp add: mk_inode_def length_concat comp_def sum_list_triv)

lemma length_mk_entry: "length name \<le> 60 \<Longrightarrow> length (mk_entry i name) = 64"
  by (simp add: mk_entry_def)

lemma length_inos:
  "length ino0 = 44" "length ino1 = 44" "length ino2 = 44" "length ino3 = 44"
  "length ino4 = 44" "length ino5 = 44" "length ino6 = 44"
  by (simp_all add: ino0_def ino1_def ino2_def ino3_def ino4_def ino5_def ino6_def length_mk_inode)

lemma length_blks:
  "length blk_sb = 256" "length blk_root = 256" "length blk_sub = 256" "length blk_bad = 256"
  "length blk_hello = 256" "length blk_world = 256"
  by (simp_all add: blk_sb_def blk_root_def blk_sub_def blk_bad_def blk_hello_def blk_world_def
      length_mk_entry)

lemma length_img0: "length img0 = 2560"
  by (simp add: img0_def length_inos length_blks)

lemma sb_spec: "superblock_spec img0 = sb0"
  by (simp add: superblock_spec_def le32_spec_def img0_def blk_sb_def enc32_def sb0_def)

section \<open>Path resolution\<close>

lemma py_get_first: "length xs = 8 \<Longrightarrow> py_get xs 0 = Inr (xs ! 0)"
  by (simp add: py_get_def)

lemma resolve_step_same [simp]: "same_file (snd (resolve_step dec f sb cur name)) f"
proof -
  obtain r f1 where a: "read_inode f sb cur = (r, f1)" by (cases "read_inode f sb cur")
  then have d1: "same_file f1 f" using read_inode_same [of f sb cur] by simp
  show ?thesis
  proof (cases r)
    case (Inl e) with a d1 show ?thesis by (simp add: resolve_step_def)
  next
    case (Inr ino)
    show ?thesis
    proof (cases "py_get (direct ino) 0")
      case (Inl e) with a d1 Inr show ?thesis by (simp add: resolve_step_def)
    next
      case d0: (Inr d0)
      obtain r2 f2 where b: "read_block f1 sb d0 = (r2, f2)" by (cases "read_block f1 sb d0")
      then have "same_file f2 f1" using read_block_same [of f1 sb d0] by simp
      with a d1 Inr d0 b show ?thesis
        by (simp add: resolve_step_def same_file_def split: sum.splits option.splits)
    qed
  qed
qed

lemma resolve_step_eval:
  "fst (resolve_step dec f sb cur name) =
     (case fst (read_inode f sb cur) of
        Inl e \<Rightarrow> Inl e
      | Inr ino \<Rightarrow>
          if \<not> is_dir ino then Inl NotADirectory
          else
            (case py_get (direct ino) 0 of
               Inl e \<Rightarrow> Inl e
             | Inr d0 \<Rightarrow>
                 if d0 = 0 then Inl EmptyDirectory
                 else
                   (case fst (read_block f sb d0) of
                      Inl e \<Rightarrow> Inl e
                    | Inr blk \<Rightarrow>
                        (case find_child (parse_dir_block dec blk) name of
                           None \<Rightarrow> Inl PathNotFound
                         | Some nxt \<Rightarrow> Inr nxt))))"
proof -
  obtain r f1 where a: "read_inode f sb cur = (r, f1)" by (cases "read_inode f sb cur")
  then have d1: "same_file f1 f" using read_inode_same [of f sb cur] by simp
  have rb: "\<And>d0. fst (read_block f1 sb d0) = fst (read_block f sb d0)"
    using d1 by (rule read_block_fst)
  show ?thesis
  proof (cases r)
    case (Inl e) with a show ?thesis by (simp add: resolve_step_def)
  next
    case (Inr ino)
    show ?thesis
    proof (cases "py_get (direct ino) 0")
      case (Inl e) with a Inr show ?thesis by (simp add: resolve_step_def)
    next
      case d0: (Inr d0)
      obtain r2 f2 where b: "read_block f1 sb d0 = (r2, f2)" by (cases "read_block f1 sb d0")
      then have "fst (read_block f sb d0) = r2" using rb [of d0] by simp
      with a Inr d0 b show ?thesis
        by (simp add: resolve_step_def split: sum.splits option.splits)
    qed
  qed
qed

lemma resolve_step_fst:
  assumes "same_file g f"
  shows "fst (resolve_step dec g sb cur name) = fst (resolve_step dec f sb cur name)"
  unfolding resolve_step_eval read_inode_fst [OF assms] read_block_fst [OF assms] ..

lemma resolve_loop_same [simp]: "same_file (snd (resolve_loop dec f sb cur comps)) f"
proof (induction comps arbitrary: f cur)
  case Nil
  show ?case by simp
next
  case (Cons name comps)
  obtain r f1 where a: "resolve_step dec f sb cur name = (r, f1)"
    by (cases "resolve_step dec f sb cur name")
  then have "same_file f1 f" using resolve_step_same [of dec f sb cur name] by simp
  with a Cons.IH show ?case by (cases r) (simp_all add: same_file_def)
qed

lemma resolve_loop_fst:
  assumes "same_file g f"
  shows "fst (resolve_loop dec g sb cur comps) = fst (resolve_loop dec f sb cur comps)"
  using assms
proof (induction comps arbitrary: f g cur)
  case Nil
  show ?case by simp
next
  case (Cons name comps)
  obtain r f1 where a: "resolve_step dec f sb cur name = (r, f1)"
    by (cases "resolve_step dec f sb cur name")
  obtain r' g1 where b: "resolve_step dec g sb cur name = (r', g1)"
    by (cases "resolve_step dec g sb cur name")
  have "r' = r"
    using resolve_step_fst [OF Cons.prems, of dec sb cur name] a b by simp
  moreover have "same_file g1 f1"
    using resolve_step_same [of dec f sb cur name] resolve_step_same [of dec g sb cur name]
      a b Cons.prems by (simp add: same_file_def)
  ultimately show ?case
    using a b Cons.IH [of g1 f1] by (cases r) simp_all
qed

lemma resolve_loop_eval:
  "fst (resolve_loop dec f sb cur (name # comps)) =
     (case fst (resolve_step dec f sb cur name) of
        Inl e \<Rightarrow> Inl e
      | Inr nxt \<Rightarrow> fst (resolve_loop dec f sb nxt comps))"
proof -
  obtain r f1 where a: "resolve_step dec f sb cur name = (r, f1)"
    by (cases "resolve_step dec f sb cur name")
  then have "same_file f1 f" using resolve_step_same [of dec f sb cur name] by simp
  then have "\<And>nxt. fst (resolve_loop dec f1 sb nxt comps) = fst (resolve_loop dec f sb nxt comps)"
    by (rule resolve_loop_fst)
  with a show ?thesis by (cases r) simp_all
qed

lemma resolve_loop_snoc:
  "resolve_loop dec f sb cur (cs @ [c]) =
     (case resolve_loop dec f sb cur cs of
        (Inl e, f1) \<Rightarrow> (Inl e, f1)
      | (Inr d, f1) \<Rightarrow> resolve_step dec f1 sb d c)"
proof (induction cs arbitrary: f cur)
  case Nil
  show ?case by (simp split: prod.splits sum.splits)
next
  case (Cons name cs)
  show ?case by (simp add: Cons.IH split: prod.splits sum.splits)
qed

lemma resolve_path_same [simp]: "same_file (snd (resolve_path dec f sb path)) f"
  by (simp add: resolve_path_def Let_def)

section \<open>Splitting paths\<close>

lemma sep_fields_nonempty: "sep_fields p \<noteq> []"
  by (induction p) (auto split: list.splits)

lemma split_loop_fields:
  "split_loop comps cur p =
     comps @ filter (\<lambda>c. c \<noteq> []) (case sep_fields p of [] \<Rightarrow> [cur] | x # xs \<Rightarrow> (cur @ x) # xs)"
proof (induction p arbitrary: comps cur)
  case Nil
  show ?case by simp
next
  case (Cons ch rest)
  obtain x xs where f: "sep_fields rest = x # xs"
    using sep_fields_nonempty [of rest] by (cases "sep_fields rest") auto
  show ?case
    by (simp add: Cons.IH f)
qed

lemma split_path_fields: "split_path p = filter (\<lambda>c. c \<noteq> []) (sep_fields p)"
proof -
  obtain x xs where f: "sep_fields p = x # xs"
    using sep_fields_nonempty [of p] by (cases "sep_fields p") auto
  then show ?thesis by (simp add: split_path_def split_loop_fields)
qed

lemma split_loop_separators:
  "set p \<subseteq> {CHR ''/''} \<Longrightarrow> split_loop comps [] p = comps"
  by (induction p arbitrary: comps) simp_all

text \<open>
  Claim C9. \<open>split_path\<close> gives exactly the non-empty separator-delimited components of
  its input, in order; so \<open>/a//b/\<close>, \<open>a/b\<close> and \<open>//a/b//\<close> all split into \<open>a\<close>, \<open>b\<close>.
\<close>

theorem split_path_components:
  "split_path ''/a//b/'' = [''a'', ''b''] \<and> split_path ''a/b'' = [''a'', ''b'']
   \<and> split_path ''//a/b//'' = [''a'', ''b'']
   \<and> (\<forall>p. split_path p = filter (\<lambda>c. c \<noteq> []) (sep_fields p))"
  by (simp add: split_path_fields [symmetric]) (simp add: split_path_def)

text \<open>
  Claim C2, as amended. For a path made of separators only, \<open>resolve_path\<close> returns
  the root inode id when the path is empty or the single separator, and fails with
  \<open>InvalidPath\<close> when it has two or more separators; either way the file handle is
  left as it was (no seek, no read).
\<close>

theorem resolve_only_separators:
  assumes "set path \<subseteq> {CHR ''/''}"
  shows "resolve_path dec f sb path =
    (if length path \<le> 1 then Inr (rootInodeId sb) else Inl InvalidPath, f)"
proof (cases path)
  case Nil
  then show ?thesis by (simp add: resolve_path_def)
next
  case (Cons c rest)
  with assms have c: "c = CHR ''/''" by simp
  have sp: "split_path path = []"
    using assms by (simp add: split_path_def split_loop_separators)
  show ?thesis
  proof (cases rest)
    case Nil
    with Cons c show ?thesis by (simp add: resolve_path_def)
  next
    case (Cons c' rest')
    with \<open>path = c # rest\<close> have "path \<noteq> []" "path \<noteq> ''/''" "\<not> length path \<le> 1" by simp_all
    with sp show ?thesis by (simp add: resolve_path_def)
  qed
qed

text \<open>
  Claim C2 as stated fails: on the sample image the path \<open>//\<close> does not resolve to the
  root inode, it is rejected as an invalid path.
\<close>

theorem resolve_double_separator_counterexample:
  "resolve_path ascii_dec f0 sb0 ''//'' = (Inl InvalidPath, f0)"
  by (simp add: resolve_path_def split_path_def)

text \<open>Witness for the amended claim C2, on the sample image.\<close>

theorem resolve_only_separators_witness:
  "set ''/'' \<subseteq> {CHR ''/''} \<and> resolve_path ascii_dec f0 sb0 ''/'' = (Inr (rootInodeId sb0), f0)
   \<and> set ''///'' \<subseteq> {CHR ''/''} \<and> resolve_path ascii_dec f0 sb0 ''///'' = (Inl InvalidPath, f0)"
  using resolve_only_separators [of "''/''" ascii_dec f0 sb0]
    resolve_only_separators [of "''///''" ascii_dec f0 sb0]
  by simp

section \<open>Directory blocks as sequences of records\<close>

lemma slot_id_drop: "slot_id (drop 64 blk) j = slot_id blk (Suc j)"
  by (simp add: slot_id_def u32_at_drop)

lemma slot_name_drop: "slot_name dec (drop 64 blk) j = slot_name dec blk (Suc j)"
  by (simp add: slot_name_def add.commute add.left_commute)

lemma parse_dir_block_short:
  assumes "length blk < 64"
  shows "parse_dir_block dec blk = []"
  using assms by (subst parse_dir_block.simps) (simp add: DIRENTRY_SIZE_def Let_def)

lemma parse_dir_block_step:
  assumes "64 \<le> length blk"
  shows "parse_dir_block dec blk =
    (if slot_id blk 0 = 0 then [] else [(slot_id blk 0, slot_name dec blk 0)])
      @ parse_dir_block dec (drop 64 blk)"
proof -
  have head: "u32_at (take 64 blk) 0 = slot_id blk 0"
    by (simp add: slot_id_def u32_at_take)
  have name: "drop 4 (take 64 blk) = take 60 (drop 4 blk)"
    by (simp add: drop_take)
  have ne: "blk \<noteq> []" using assms by auto
  have len: "length (take 64 blk) = 64" using assms by simp
  show ?thesis
    using assms
    by (subst parse_dir_block.simps)
       (simp add: DIRENTRY_SIZE_def Let_def head name ne slot_name_def)
qed

lemma upt_shift: "[0..<Suc n] = 0 # map Suc [0..<n]"
  by (simp add: upt_conv_Cons map_Suc_upt del: upt_Suc)

lemma parse_dir_block_slots_aux:
  "length blk div 64 = n \<Longrightarrow>
   parse_dir_block dec blk =
     map (\<lambda>j. (slot_id blk j, slot_name dec blk j))
       (filter (\<lambda>j. slot_id blk j \<noteq> 0) [0..<n])"
proof (induction n arbitrary: blk)
  case 0
  then have "length blk < 64" by (simp add: div_eq_0_iff)
  then show ?case by (simp add: parse_dir_block_short)
next
  case (Suc n)
  have len: "64 \<le> length blk"
  proof (rule ccontr)
    assume "\<not> 64 \<le> length blk"
    then have "length blk div 64 = 0" by simp
    with Suc.prems show False by simp
  qed
  have "length (drop 64 blk) div 64 = n"
    using Suc.prems len by (simp add: le_div_geq)
  then have IH: "parse_dir_block dec (drop 64 blk) =
     map (\<lambda>j. (slot_id blk (Suc j), slot_name dec blk (Suc j)))
       (filter (\<lambda>j. slot_id blk (Suc j) \<noteq> 0) [0..<n])"
    using Suc.IH [of "drop 64 blk"] by (simp only: slot_id_drop slot_name_drop)
  show ?case
    unfolding parse_dir_block_step [OF len] IH upt_shift
    by (simp add: filter_map comp_def)
qed

lemma parse_dir_block_slots:
  "parse_dir_block dec blk =
     map (\<lambda>j. (slot_id blk j, slot_name dec blk j))
       (filter (\<lambda>j. slot_id blk j \<noteq> 0) [0..<length blk div 64])"
  by (rule parse_dir_block_slots_aux) (rule refl)

section \<open>The walk over the components\<close>

lemma find_child_append:
  "\<forall>e \<in> set xs. snd e \<noteq> name \<Longrightarrow> find_child (xs @ ys) name = find_child ys name"
  by (induction xs) auto

lemma upt_split_at:
  assumes "k < n"
  shows "[0..<n] = [0..<k] @ k # [Suc k..<n]"
proof -
  have "[0..<k + (n - k)] = [0..<k] @ [k..<k + (n - k)]"
    by (rule upt_add_eq_append) simp
  moreover have "k + (n - k) = n" using assms by simp
  moreover have "[k..<n] = k # [Suc k..<n]" using assms by (rule upt_conv_Cons)
  ultimately show ?thesis by simp
qed

lemma find_child_first_slot:
  assumes "k < n" and "sid k \<noteq> 0" and "snm k = name"
    and "\<forall>j<k. sid j = 0 \<or> snm j \<noteq> name"
  shows "find_child (map (\<lambda>j. (sid j, snm j)) (filter (\<lambda>j. sid j \<noteq> (0::int)) [0..<n])) name
    = Some (sid k)"
proof -
  have "\<forall>e \<in> set (map (\<lambda>j. (sid j, snm j)) (filter (\<lambda>j. sid j \<noteq> 0) [0..<k])). snd e \<noteq> name"
    using assms(4) by auto
  then have "find_child
      (map (\<lambda>j. (sid j, snm j)) (filter (\<lambda>j. sid j \<noteq> 0) [0..<k])
        @ map (\<lambda>j. (sid j, snm j)) (filter (\<lambda>j. sid j \<noteq> 0) (k # [Suc k..<n]))) name
    = find_child (map (\<lambda>j. (sid j, snm j)) (filter (\<lambda>j. sid j \<noteq> 0) (k # [Suc k..<n]))) name"
    by (rule find_child_append)
  then show ?thesis
    using assms(2,3) by (simp add: upt_split_at [OF assms(1)])
qed

lemma py_get_direct:
  assumes "fst (read_inode f sb i) = Inr ino"
  shows "py_get (direct ino) 0 = Inr (direct ino ! 0)"
  using read_inode_shape(1) [OF assms] by (simp add: py_get_first)

lemma resolve_step_found:
  assumes "fst (read_inode f sb cur) = Inr ino" and "is_dir ino" and "direct ino ! 0 \<noteq> 0"
    and "fst (read_block f sb (direct ino ! 0)) = Inr blk"
    and "find_child (parse_dir_block dec blk) name = Some nxt"
  shows "fst (resolve_step dec f sb cur name) = Inr nxt"
  using assms by (simp add: resolve_step_eval py_get_direct [OF assms(1)])

text \<open>
  Claim C7. When the directory block of the inode being searched holds several records
  with the name looked for, the walk takes the first of them in on-disk order among the
  records whose inode id is not 0: if record \<open>k\<close> is live and has the name, and every
  earlier record is unused or has another name, then the lookup returns record \<open>k\<close>'s
  inode id, whatever follows it. The walk's current inode becomes that id: a walk of this
  one component ends in it, and a longer walk goes on from it, on the handle as the
  lookup left it, exactly as a walk of the remaining components started there.
\<close>

theorem resolve_first_duplicate:
  assumes "fst (read_inode f sb cur) = Inr ino" and "is_dir ino" and "direct ino ! 0 \<noteq> 0"
    and "fst (read_block f sb (direct ino ! 0)) = Inr blk"
    and "k < length blk div 64"
    and "slot_id blk k \<noteq> 0" and "slot_name dec blk k = name"
    and "\<forall>j<k. slot_id blk j = 0 \<or> slot_name dec blk j \<noteq> name"
  shows "find_child (parse_dir_block dec blk) name = Some (slot_id blk k)
     \<and> fst (resolve_step dec f sb cur name) = Inr (slot_id blk k)
     \<and> fst (resolve_loop dec f sb cur [name]) = Inr (slot_id blk k)
     \<and> (\<forall>comps. resolve_loop dec f sb cur (name # comps)
           = resolve_loop dec (snd (resolve_step dec f sb cur name)) sb (slot_id blk k) comps)"
proof -
  have found: "find_child (parse_dir_block dec blk) name = Some (slot_id blk k)"
    unfolding parse_dir_block_slots
    using assms(5-8) by (rule find_child_first_slot)
  have step: "fst (resolve_step dec f sb cur name) = Inr (slot_id blk k)"
    using assms(1-4) found by (rule resolve_step_found)
  then have full: "resolve_step dec f sb cur name
      = (Inr (slot_id blk k), snd (resolve_step dec f sb cur name))"
    by (metis prod.collapse)
  have walk: "resolve_loop dec f sb cur (name # comps)
      = resolve_loop dec (snd (resolve_step dec f sb cur name)) sb (slot_id blk k) comps"
    for comps
    by (subst resolve_loop.simps, subst full) simp
  have "fst (resolve_loop dec f sb cur [name]) = Inr (slot_id blk k)"
    unfolding walk by simp
  with found step walk show ?thesis by blast
qed

lemma read_block_success:
  assumes "read_block f sb b = (Inr blk, f')"
  shows "trace f' = trace f @ [Seek (file_offset_of_block sb b), Read (blockSize sb)]"
  using assms
  by (auto simp add: read_block_def seek_def read_exact_def read_def Let_def split: if_splits)

lemma resolve_step_success:
  assumes "resolve_step dec f sb cur name = (Inr nxt, f')"
  shows "\<exists>off ino. inode_offset sb cur = Inr off \<and> fst (read_inode f sb cur) = Inr ino
     \<and> trace f' = trace f @ [Seek off, Read INODE_SIZE,
          Seek (file_offset_of_block sb (direct ino ! 0)), Read (blockSize sb)]"
proof -
  obtain r f1 where a: "read_inode f sb cur = (r, f1)" by (cases "read_inode f sb cur")
  with assms obtain ino where r: "r = Inr ino"
    by (cases r) (simp_all add: resolve_step_def)
  from a r obtain off where off: "inode_offset sb cur = Inr off"
    and t1: "trace f1 = trace f @ [Seek off, Read INODE_SIZE]"
    using read_inode_success [of f sb cur ino f1] by auto
  have g: "py_get (direct ino) 0 = Inr (direct ino ! 0)"
    using a r by (intro py_get_direct [of f sb cur]) simp
  obtain r2 f2 where b: "read_block f1 sb (direct ino ! 0) = (r2, f2)"
    by (cases "read_block f1 sb (direct ino ! 0)")
  from assms a r g b obtain blk where r2: "r2 = Inr blk" and f': "f' = f2"
    by (cases r2) (auto simp add: resolve_step_def split: if_splits option.splits)
  have "trace f2 = trace f1 @ [Seek (file_offset_of_block sb (direct ino ! 0)), Read (blockSize sb)]"
    using b r2 by (intro read_block_success [of f1 sb _ blk]) simp
  with t1 f' off a r show ?thesis by simp
qed

lemma resolve_loop_trace_length:
  assumes "resolve_loop dec f sb cur comps = (Inr r, f')"
  shows "length (trace f') = length (trace f) + 4 * length comps"
  using assms
proof (induction comps arbitrary: f cur)
  case Nil
  then show ?case by simp
next
  case (Cons name comps)
  obtain r1 f1 where a: "resolve_step dec f sb cur name = (r1, f1)"
    by (cases "resolve_step dec f sb cur name")
  with Cons.prems obtain nxt where r1: "r1 = Inr nxt" by (cases r1) simp_all
  have "length (trace f1) = length (trace f) + 4"
    using resolve_step_success [of dec f sb cur name nxt f1] a r1 by auto
  moreover have "length (trace f') = length (trace f1) + 4 * length comps"
    using Cons.prems a r1 by (intro Cons.IH [of f1 nxt]) simp
  ultimately show ?case by simp
qed

lemma split_path_nonempty:
  assumes "split_path path \<noteq> []"
  shows "resolve_path dec f sb path = resolve_loop dec f sb (rootInodeId sb) (split_path path)"
proof -
  have "path \<noteq> []" "path \<noteq> ''/''"
    using assms by (auto simp add: split_path_def)
  then show ?thesis using assms by (simp add: resolve_path_def)
qed

text \<open>
  Claim C10. The inode named by the last component of a path is neither read nor checked:
  when the walk over the components before the last one ends in inode \<open>d\<close>, and \<open>d\<close>'s
  directory block has an entry for the last component, \<open>resolve_path\<close> returns that entry's
  inode id as it is, with no condition on it. Its last operations on the file are the read
  of inode \<open>d\<close> and of \<open>d\<close>'s first block, and the whole walk performs four operations
  (seek and read of a directory inode, seek and read of its block) per component.
\<close>

theorem resolve_last_component_unchecked:
  assumes "split_path path = cs @ [c]"
    and "fst (resolve_loop dec f sb (rootInodeId sb) cs) = Inr d"
    and "fst (read_inode f sb d) = Inr ino" and "is_dir ino" and "direct ino ! 0 \<noteq> 0"
    and "fst (read_block f sb (direct ino ! 0)) = Inr blk"
    and "find_child (parse_dir_block dec blk) c = Some child"
  shows "fst (resolve_path dec f sb path) = Inr child
     \<and> (\<exists>off. inode_offset sb d = Inr off
          \<and> trace (snd (resolve_path dec f sb path))
              = trace (snd (resolve_loop dec f sb (rootInodeId sb) cs))
                  @ [Seek off, Read INODE_SIZE,
                     Seek (file_offset_of_block sb (direct ino ! 0)), Read (blockSize sb)])
     \<and> length (trace (snd (resolve_path dec f sb path)))
          = length (trace f) + 4 * length (split_path path)"
proof -
  let ?f1 = "snd (resolve_loop dec f sb (rootInodeId sb) cs)"
  have walk: "resolve_loop dec f sb (rootInodeId sb) cs = (Inr d, ?f1)"
    using assms(2) by (metis prod.collapse)
  have d1: "same_file ?f1 f" by simp
  have "resolve_loop dec f sb (rootInodeId sb) (cs @ [c]) = resolve_step dec ?f1 sb d c"
    by (subst resolve_loop_snoc, subst walk) simp
  then have rp: "resolve_path dec f sb path = resolve_step dec ?f1 sb d c"
    using assms(1) by (simp add: split_path_nonempty)
  have "fst (resolve_step dec ?f1 sb d c) = fst (resolve_step dec f sb d c)"
    using d1 by (rule resolve_step_fst)
  also have "\<dots> = Inr child"
    using assms(3-7) by (rule resolve_step_found)
  finally have res: "fst (resolve_step dec ?f1 sb d c) = Inr child" .
  then have full: "resolve_step dec ?f1 sb d c = (Inr child, snd (resolve_step dec ?f1 sb d c))"
    by (metis prod.collapse)
  obtain off ino' where off: "inode_offset sb d = Inr off"
    and ino': "fst (read_inode ?f1 sb d) = Inr ino'"
    and tr: "trace (snd (resolve_step dec ?f1 sb d c)) = trace ?f1 @ [Seek off, Read INODE_SIZE,
          Seek (file_offset_of_block sb (direct ino' ! 0)), Read (blockSize sb)]"
    using resolve_step_success [OF full] by blast
  have "ino' = ino"
    using ino' assms(3) read_inode_fst [OF d1, of sb d] by simp
  moreover have "length (trace (snd (resolve_path dec f sb path)))
      = length (trace f) + 4 * length (split_path path)"
  proof -
    have "resolve_loop dec f sb (rootInodeId sb) (split_path path)
        = (Inr child, snd (resolve_path dec f sb path))"
      using rp full assms(1) by (simp add: split_path_nonempty)
    then show ?thesis by (rule resolve_loop_trace_length)
  qed
  ultimately show ?thesis
    using rp res off tr by simp
qed

section \<open>File contents\<close>

lemma read_block_result:
  assumes "\<not> isl (fst (read_block f sb b))"
  shows "fst (read_block f sb b) = Inr (block_bytes (data f) sb b)"
    and "length (block_bytes (data f) sb b) = nat (blockSize sb)" and "0 \<le> blockSize sb"
proof -
  obtain blk f' where r: "read_block f sb b = (Inr blk, f')"
    using assms by (cases "read_block f sb b"; cases "fst (read_block f sb b)") auto
  then have len: "int (length blk) = blockSize sb" by (rule read_block_length)
  then show nn: "0 \<le> blockSize sb" by linarith
  have "blk = block_bytes (data f) sb b"
    using r
    by (auto simp add: read_block_def seek_def read_exact_def read_def Let_def block_bytes_def
        file_offset_of_block_def split: if_splits)
  with r len show "fst (read_block f sb b) = Inr (block_bytes (data f) sb b)"
    and "length (block_bytes (data f) sb b) = nat (blockSize sb)"
    by auto
qed

lemma read_block_error:
  assumes "fst (read_block f sb b) = Inl e"
  shows "e \<noteq> TruncatedFile"
  using assms
  by (auto simp add: read_block_def seek_def read_exact_def read_def Let_def split: if_splits)

lemma content_loop_same [simp]: "same_file (snd (content_loop f sb ds r chunks)) f"
proof (induction ds arbitrary: f r chunks)
  case Nil
  show ?case by simp
next
  case (Cons b ds)
  obtain r1 f1 where a: "read_block f sb b = (r1, f1)" by (cases "read_block f sb b")
  then have s1: "same_file f1 f" using read_block_same [of f sb b] by simp
  show ?case
  proof (cases r1)
    case (Inl e)
    with a s1 show ?thesis by simp
  next
    case (Inr blk)
    have "same_file (snd (content_loop f1 sb ds (r - min r (blockSize sb))
        (chunks @ [py_prefix blk (min r (blockSize sb))]))) f"
      using Cons.IH s1 by (rule same_file_trans)
    with a Inr show ?thesis by (simp add: Let_def)
  qed
qed

lemma content_loop_ok:
  assumes "0 \<le> r" and "0 \<le> blockSize sb" and "same_file g f"
    and "\<forall>k<length (takeWhile (\<lambda>b. b \<noteq> 0) ds). int k * blockSize sb < r
           \<longrightarrow> \<not> isl (fst (read_block f sb (takeWhile (\<lambda>b. b \<noteq> 0) ds ! k)))"
  shows "\<exists>cs. fst (content_loop g sb ds r chunks)
            = Inr (r - min r (int (length (takeWhile (\<lambda>b. b \<noteq> 0) ds)) * blockSize sb),
                   chunks @ cs)
          \<and> concat cs
            = take (nat r) (concat (map (block_bytes (data f) sb) (takeWhile (\<lambda>b. b \<noteq> 0) ds)))
          \<and> int (length (concat cs))
            = min r (int (length (takeWhile (\<lambda>b. b \<noteq> 0) ds)) * blockSize sb)"
  using assms
proof (induction ds arbitrary: g r chunks)
  case Nil
  then show ?case by simp
next
  case (Cons b ds)
  let ?bs = "blockSize sb"
  let ?bl = "takeWhile (\<lambda>b. b \<noteq> 0) ds"
  let ?B = "block_bytes (data f) sb"
  show ?case
  proof (cases "r \<le> 0 \<or> b = 0")
    case True
    then show ?thesis
      using Cons.prems(1,2) by (auto simp add: min_def)
  next
    case False
    then have r: "0 < r" and b: "b \<noteq> 0" by simp_all
    have "\<not> isl (fst (read_block f sb b))"
      using Cons.prems(4) r b by auto
    then have rf: "fst (read_block f sb b) = Inr (?B b)" and len: "length (?B b) = nat ?bs"
      by (rule read_block_result)+
    have "fst (read_block g sb b) = Inr (?B b)"
      using rf read_block_fst [OF Cons.prems(3), of sb b] by simp
    then obtain g1 where rg: "read_block g sb b = (Inr (?B b), g1)"
      by (cases "read_block g sb b") simp
    then have "same_file g1 g" using read_block_same [of g sb b] by simp
    then have dg1: "same_file g1 f" using Cons.prems(3) by (rule same_file_trans)
    let ?t = "min r ?bs"
    let ?p = "py_prefix (?B b) ?t"
    have t: "0 \<le> ?t" using r Cons.prems(2) by simp
    have "\<not> ?t < 0" using t by linarith
    then have p: "?p = take (nat ?t) (?B b)" unfolding py_prefix_def by (rule if_not_P)
    have unfold: "content_loop g sb (b # ds) r chunks
        = content_loop g1 sb ds (r - ?t) (chunks @ [?p])"
      using r b rg by (simp add: Let_def)
    have vis: "\<forall>k<length ?bl. int k * ?bs < r - ?t
        \<longrightarrow> \<not> isl (fst (read_block f sb (?bl ! k)))"
    proof (intro allI impI)
      fix k assume k: "k < length ?bl" and lt: "int k * ?bs < r - ?t"
      have "0 \<le> int k * ?bs" using Cons.prems(2) by simp
      with lt have "?t = ?bs" by (simp add: min_def split: if_splits)
      with lt have "int (Suc k) * ?bs < r" by (simp add: algebra_simps)
      moreover have "Suc k < length (takeWhile (\<lambda>b. b \<noteq> 0) (b # ds))"
        using k b by simp
      ultimately have "\<not> isl (fst (read_block f sb (takeWhile (\<lambda>b. b \<noteq> 0) (b # ds) ! Suc k)))"
        using Cons.prems(4) by blast
      then show "\<not> isl (fst (read_block f sb (?bl ! k)))"
        using b by simp
    qed
    have "0 \<le> r - ?t" by simp
    from Cons.IH [OF this Cons.prems(2) dg1 vis, of "chunks @ [?p]"]
    obtain cs where
      c1: "fst (content_loop g1 sb ds (r - ?t) (chunks @ [?p]))
            = Inr (r - ?t - min (r - ?t) (int (length ?bl) * ?bs), (chunks @ [?p]) @ cs)"
      and c2: "concat cs = take (nat (r - ?t)) (concat (map ?B ?bl))"
      and c3: "int (length (concat cs)) = min (r - ?t) (int (length ?bl) * ?bs)"
      by blast
    define m where "m = int (length ?bl) * ?bs"
    have m0: "0 \<le> m" using Cons.prems(2) by (simp add: m_def)
    have e: "int (length (takeWhile (\<lambda>b. b \<noteq> 0) (b # ds))) * ?bs = m + ?bs"
      using b by (simp add: m_def algebra_simps)
    have rem: "r - ?t - min (r - ?t) (int (length ?bl) * ?bs)
        = r - min r (int (length (takeWhile (\<lambda>b. b \<noteq> 0) (b # ds))) * ?bs)"
      unfolding e m_def [symmetric] using m0 Cons.prems(2) by (simp add: min_def)
    have cat: "concat (?p # cs)
        = take (nat r) (concat (map ?B (takeWhile (\<lambda>b. b \<noteq> 0) (b # ds))))"
    proof (cases "r \<le> ?bs")
      case True
      then have "?t = r" by simp
      then show ?thesis
        using b c2 len True p by (simp add: min_def)
    next
      case False
      then have "?t = ?bs" by simp
      moreover have "nat r - nat ?bs = nat (r - ?bs)"
        using Cons.prems(2) by (simp add: nat_diff_distrib)
      ultimately show ?thesis
        using b c2 len False p by (simp add: min_def)
    qed
    have "nat ?t \<le> nat ?bs" by (rule nat_mono) simp
    then have "length ?p = nat ?t" unfolding p by (simp add: len)
    then have lenp: "int (length ?p) = ?t" using t by linarith
    have total: "int (length (concat (?p # cs)))
        = min r (int (length (takeWhile (\<lambda>b. b \<noteq> 0) (b # ds))) * ?bs)"
      using m0 Cons.prems(2) c3 lenp unfolding e m_def [symmetric] by (simp add: min_def)
    show ?thesis
      using unfold c1 rem cat total
      by (intro exI [of _ "?p # cs"]) simp
  qed
qed

lemma content_loop_fail:
  assumes "0 \<le> blockSize sb" and "same_file g f"
    and "k < length (takeWhile (\<lambda>b. b \<noteq> 0) ds)" and "int k * blockSize sb < r"
    and "\<forall>j<k. \<not> isl (fst (read_block f sb (takeWhile (\<lambda>b. b \<noteq> 0) ds ! j)))"
    and "fst (read_block f sb (takeWhile (\<lambda>b. b \<noteq> 0) ds ! k)) = Inl e"
  shows "fst (content_loop g sb ds r chunks) = Inl e"
  using assms
proof (induction ds arbitrary: g r chunks k)
  case Nil
  then show ?case by simp
next
  case (Cons b ds)
  let ?bs = "blockSize sb"
  have b: "b \<noteq> 0" using Cons.prems(3) by (cases "b = 0") simp_all
  have "0 \<le> int k * ?bs" using Cons.prems(1) by simp
  with Cons.prems(4) have r: "0 < r" by linarith
  show ?case
  proof (cases k)
    case 0
    then have "fst (read_block f sb b) = Inl e" using Cons.prems(6) b by simp
    then have "fst (read_block g sb b) = Inl e"
      using read_block_fst [OF Cons.prems(2), of sb b] by simp
    then obtain g1 where "read_block g sb b = (Inl e, g1)"
      by (cases "read_block g sb b") simp
    then show ?thesis using r b by simp
  next
    case (Suc k')
    have "\<not> isl (fst (read_block f sb (takeWhile (\<lambda>b. b \<noteq> 0) (b # ds) ! 0)))"
      using Cons.prems(5) Suc by blast
    then have "\<not> isl (fst (read_block f sb b))" using b by simp
    then have rf: "fst (read_block f sb b) = Inr (block_bytes (data f) sb b)"
      by (rule read_block_result)
    then have "fst (read_block g sb b) = Inr (block_bytes (data f) sb b)"
      using read_block_fst [OF Cons.prems(2), of sb b] by simp
    then obtain g1 where rg: "read_block g sb b = (Inr (block_bytes (data f) sb b), g1)"
      by (cases "read_block g sb b") simp
    have "same_file g1 g" using read_block_same [of g sb b] rg by simp
    then have dg1: "same_file g1 f" using Cons.prems(2) by (rule same_file_trans)
    have kl: "k' < length (takeWhile (\<lambda>b. b \<noteq> 0) ds)"
      using Cons.prems(3) b Suc by simp
    have bad: "fst (read_block f sb (takeWhile (\<lambda>b. b \<noteq> 0) ds ! k')) = Inl e"
      using Cons.prems(6) b Suc by simp
    have good: "\<forall>j<k'. \<not> isl (fst (read_block f sb (takeWhile (\<lambda>b. b \<noteq> 0) ds ! j)))"
    proof (intro allI impI)
      fix j assume "j < k'"
      then have "Suc j < k" using Suc by simp
      then have "\<not> isl (fst (read_block f sb (takeWhile (\<lambda>b. b \<noteq> 0) (b # ds) ! Suc j)))"
        using Cons.prems(5) by blast
      then show "\<not> isl (fst (read_block f sb (takeWhile (\<lambda>b. b \<noteq> 0) ds ! j)))"
        using b by simp
    qed
    have mul: "int k * ?bs = int k' * ?bs + ?bs"
      by (simp add: Suc algebra_simps)
    have k0: "0 \<le> int k' * ?bs" using Cons.prems(1) by simp
    have "?bs < r" using Cons.prems(4) k0 unfolding mul by linarith
    then have t: "min r ?bs = ?bs" by simp
    have "int k' * ?bs < r - min r ?bs"
      using Cons.prems(4) unfolding mul t by linarith
    from Cons.IH [OF Cons.prems(1) dg1 kl this good bad]
    have "fst (content_loop g1 sb ds (r - min r ?bs)
             (chunks @ [py_prefix (block_bytes (data f) sb b) (min r ?bs)])) = Inl e" .
    moreover have "content_loop g sb (b # ds) r chunks
        = content_loop g1 sb ds (r - min r ?bs)
            (chunks @ [py_prefix (block_bytes (data f) sb b) (min r ?bs)])"
      using r b rg by (simp add: Let_def)
    ultimately show ?thesis by simp
  qed
qed

lemma first_unreadable:
  assumes "0 \<le> bs" and "k < n" and "int k * bs < r" and "isl (rd k)"
  shows "\<exists>m e. m < n \<and> int m * bs < r \<and> (\<forall>j<m. \<not> isl (rd j)) \<and> rd m = Inl e"
proof -
  let ?P = "\<lambda>m. m < n \<and> int m * bs < r \<and> isl (rd m)"
  have "\<exists>m. ?P m" using assms by blast
  then obtain m where m: "?P m" and least: "\<forall>j<m. \<not> ?P j"
    unfolding exists_least_iff [of ?P] by blast
  have "\<not> isl (rd j)" if "j < m" for j
  proof -
    have "int j * bs \<le> int m * bs"
      using that assms(1) by (intro mult_right_mono) simp_all
    then have "j < n \<and> int j * bs < r" using that m by linarith
    with least that show ?thesis by blast
  qed
  moreover obtain e where "rd m = Inl e" using m by (cases "rd m") simp_all
  ultimately show ?thesis using m by blast
qed

text \<open>
  Claim C3, as amended. For a file inode reached by a resolvable path (and a block size
  that is not negative), call a leading non-zero direct block visited when the blocks
  before it hold less than the recorded size. When every visited block can be read,
  \<open>read_file_content\<close> fails with \<open>TruncatedFile\<close> exactly when the recorded size exceeds
  \<open>blockSize\<close> times the number of leading non-zero direct blocks, and otherwise returns the
  first \<open>size\<close> bytes of the concatenation of these blocks in array order. When some visited
  block cannot be read, it fails, and the error is the one \<open>read_block\<close> gives for the first
  visited block that cannot be read (a block identifier out of range, a failed seek or a
  short read, never \<open>TruncatedFile\<close>). Every byte string it returns has the recorded size as
  its length.
\<close>

theorem read_file_content_result:
  assumes "fst (resolve_path dec f sb path) = Inr i" and "fst (read_inode f sb i) = Inr ino"
    and "\<not> is_dir ino" and "0 \<le> blockSize sb"
  shows "(visited_readable f sb ino \<longrightarrow>
            fst (read_file_content dec f sb path)
              = (if int (length (leading_blocks ino)) * blockSize sb < size_ino ino
                 then Inl TruncatedFile
                 else Inr (take (nat (size_ino ino))
                        (concat (map (block_bytes (data f) sb) (leading_blocks ino))))))
     \<and> (\<not> visited_readable f sb ino \<longrightarrow> isl (fst (read_file_content dec f sb path)))
     \<and> (\<forall>k e. k < length (leading_blocks ino) \<and> int k * blockSize sb < size_ino ino
            \<and> (\<forall>j<k. \<not> isl (fst (read_block f sb (leading_blocks ino ! j))))
            \<and> fst (read_block f sb (leading_blocks ino ! k)) = Inl e
          \<longrightarrow> fst (read_file_content dec f sb path) = Inl e)
     \<and> (fst (read_file_content dec f sb path) = Inl TruncatedFile
          \<longleftrightarrow> visited_readable f sb ino
              \<and> int (length (leading_blocks ino)) * blockSize sb < size_ino ino)
     \<and> (\<forall>out. fst (read_file_content dec f sb path) = Inr out
            \<longrightarrow> int (length out) = size_ino ino)"
proof -
  let ?bs = "blockSize sb" and ?bl = "leading_blocks ino" and ?r = "size_ino ino"
  let ?res = "fst (read_file_content dec f sb path)"
  obtain f1 where a: "resolve_path dec f sb path = (Inr i, f1)"
    using assms(1) by (cases "resolve_path dec f sb path") simp
  then have d1: "same_file f1 f" using resolve_path_same [of dec f sb path] by simp
  have "fst (read_inode f1 sb i) = Inr ino"
    using assms(2) read_inode_fst [OF d1, of sb i] by simp
  then obtain f2 where b: "read_inode f1 sb i = (Inr ino, f2)"
    by (cases "read_inode f1 sb i") simp
  then have "same_file f2 f1" using read_inode_same [of f1 sb i] by simp
  then have d2: "same_file f2 f" using d1 by (rule same_file_trans)
  have r0: "0 \<le> ?r" using assms(2) by (rule read_inode_shape)
  have unfold: "?res =
      (case fst (content_loop f2 sb (direct ino) ?r []) of
         Inl e \<Rightarrow> Inl e
       | Inr (remaining, chunks) \<Rightarrow>
           if remaining \<noteq> 0 then Inl TruncatedFile else Inr (concat chunks))"
    using a b assms(3)
    by (simp add: read_file_content_def split: prod.splits sum.splits)
  have ok: "?res = (if int (length ?bl) * ?bs < ?r then Inl TruncatedFile
               else Inr (take (nat ?r) (concat (map (block_bytes (data f) sb) ?bl))))
            \<and> (int (length ?bl) * ?bs < ?r \<or> (\<forall>out. ?res = Inr out \<longrightarrow> int (length out) = ?r))"
    if vr: "visited_readable f sb ino"
  proof -
    have "\<forall>k<length (takeWhile (\<lambda>b. b \<noteq> 0) (direct ino)). int k * ?bs < ?r
        \<longrightarrow> \<not> isl (fst (read_block f sb (takeWhile (\<lambda>b. b \<noteq> 0) (direct ino) ! k)))"
      using vr by (simp add: visited_readable_def leading_blocks_def)
    from content_loop_ok [OF r0 assms(4) d2 this, of "[]"]
    obtain cs where
      c1: "fst (content_loop f2 sb (direct ino) ?r [])
            = Inr (?r - min ?r (int (length ?bl) * ?bs), cs)"
      and c2: "concat cs = take (nat ?r) (concat (map (block_bytes (data f) sb) ?bl))"
      and c3: "int (length (concat cs)) = min ?r (int (length ?bl) * ?bs)"
      by (auto simp add: leading_blocks_def)
    show ?thesis
      unfolding unfold c1 using c2 c3 by (auto simp add: min_def)
  qed
  have first: "?res = Inl e"
    if "k < length ?bl" and "int k * ?bs < ?r"
      and "\<forall>j<k. \<not> isl (fst (read_block f sb (?bl ! j)))"
      and "fst (read_block f sb (?bl ! k)) = Inl e" for k e
  proof -
    have "fst (content_loop f2 sb (direct ino) ?r []) = Inl e"
      using that unfolding leading_blocks_def
      by (intro content_loop_fail [OF assms(4) d2, of k]) simp_all
    then show ?thesis unfolding unfold by simp
  qed
  have bad: "\<exists>b e. fst (read_block f sb b) = Inl e \<and> ?res = Inl e"
    if nvr: "\<not> visited_readable f sb ino"
  proof -
    from nvr obtain k where "k < length ?bl" and "int k * ?bs < ?r"
      and "isl (fst (read_block f sb (?bl ! k)))"
      by (auto simp add: visited_readable_def)
    from first_unreadable [of ?bs k "length ?bl" ?r "\<lambda>k. fst (read_block f sb (?bl ! k))",
        OF assms(4) this]
    obtain m e where "m < length ?bl" and "int m * ?bs < ?r"
      and "\<forall>j<m. \<not> isl (fst (read_block f sb (?bl ! j)))"
      and e: "fst (read_block f sb (?bl ! m)) = Inl e"
      by blast
    then have "?res = Inl e" by (rule first)
    with e show ?thesis by blast
  qed
  have fails: "isl ?res" if "\<not> visited_readable f sb ino"
    using bad [OF that] by auto
  have iff: "?res = Inl TruncatedFile
      \<longleftrightarrow> visited_readable f sb ino \<and> int (length ?bl) * ?bs < ?r"
  proof (cases "visited_readable f sb ino")
    case True
    then show ?thesis using ok by auto
  next
    case False
    then obtain b' e where "fst (read_block f sb b') = Inl e" and "?res = Inl e"
      using bad by blast
    then show ?thesis using False read_block_error [of f sb b' e] by auto
  qed
  have len: "\<forall>out. ?res = Inr out \<longrightarrow> int (length out) = ?r"
  proof (cases "visited_readable f sb ino")
    case True
    then show ?thesis using ok by auto
  next
    case False
    then show ?thesis using bad by auto
  qed
  show ?thesis
  proof (intro conjI allI impI)
    assume "visited_readable f sb ino"
    then show "?res = (if int (length ?bl) * ?bs < ?r then Inl TruncatedFile
               else Inr (take (nat ?r) (concat (map (block_bytes (data f) sb) ?bl))))"
      using ok by blast
  next
    assume "\<not> visited_readable f sb ino"
    then show "isl ?res" by (rule fails)
  next
    fix k e
    assume "k < length ?bl \<and> int k * ?bs < ?r
        \<and> (\<forall>j<k. \<not> isl (fst (read_block f sb (?bl ! j))))
        \<and> fst (read_block f sb (?bl ! k)) = Inl e"
    then show "?res = Inl e" using first by blast
  next
    show "?res = Inl TruncatedFile
      \<longleftrightarrow> visited_readable f sb ino \<and> int (length ?bl) * ?bs < ?r" by (rule iff)
  next
    fix out assume "?res = Inr out"
    then show "int (length out) = ?r" using len by blast
  qed
qed

lemma read_file_content_unfold:
  assumes "fst (resolve_path dec f sb path) = Inr i" and "fst (read_inode f sb i) = Inr ino"
    and "\<not> is_dir ino"
  shows "\<exists>g. same_file g f \<and> fst (read_file_content dec f sb path) =
      (case fst (content_loop g sb (direct ino) (size_ino ino) []) of
         Inl e \<Rightarrow> Inl e
       | Inr (remaining, chunks) \<Rightarrow>
           if remaining \<noteq> 0 then Inl TruncatedFile else Inr (concat chunks))"
proof -
  obtain f1 where a: "resolve_path dec f sb path = (Inr i, f1)"
    using assms(1) by (cases "resolve_path dec f sb path") simp
  then have d1: "same_file f1 f" using resolve_path_same [of dec f sb path] by simp
  have "fst (read_inode f1 sb i) = Inr ino"
    using assms(2) read_inode_fst [OF d1, of sb i] by simp
  then obtain f2 where b: "read_inode f1 sb i = (Inr ino, f2)"
    by (cases "read_inode f1 sb i") simp
  then have "same_file f2 f1" using read_inode_same [of f1 sb i] by simp
  then have d2: "same_file f2 f" using d1 by (rule same_file_trans)
  have "fst (read_file_content dec f sb path) =
      (case fst (content_loop f2 sb (direct ino) (size_ino ino) []) of
         Inl e \<Rightarrow> Inl e
       | Inr (remaining, chunks) \<Rightarrow>
           if remaining \<noteq> 0 then Inl TruncatedFile else Inr (concat chunks))"
    using a b assms(3)
    by (simp add: read_file_content_def split: prod.splits sum.splits)
  with d2 show ?thesis by blast
qed

lemma resolve_loop_nil: "fst (resolve_loop dec f sb cur []) = Inr cur"
  by simp

section \<open>Directory listings\<close>

lemma list_loop_ok:
  assumes "same_file g f"
    and "\<forall>e \<in> set es. \<not> isl (fst (read_inode f sb (fst e)))"
  shows "fst (list_loop g sb es out)
    = Inr (out @ map (\<lambda>e. annotated f sb (fst e) (snd e)) es)"
  using assms
proof (induction es arbitrary: g out)
  case Nil
  show ?case by simp
next
  case (Cons e es)
  obtain c n where e: "e = (c, n)" by (cases e)
  have "\<not> isl (fst (read_inode f sb c))" using Cons.prems(2) e by simp
  then obtain ch where ch: "fst (read_inode f sb c) = Inr ch"
    by (cases "fst (read_inode f sb c)") simp_all
  then have "fst (read_inode g sb c) = Inr ch"
    using read_inode_fst [OF Cons.prems(1), of sb c] by simp
  then obtain g1 where rg: "read_inode g sb c = (Inr ch, g1)"
    by (cases "read_inode g sb c") simp
  then have "same_file g1 g" using read_inode_same [of g sb c] by simp
  then have d1: "same_file g1 f" using Cons.prems(1) by (rule same_file_trans)
  have "\<forall>e \<in> set es. \<not> isl (fst (read_inode f sb (fst e)))"
    using Cons.prems(2) by simp
  from Cons.IH [OF d1 this]
  show ?case using e rg ch by (simp add: annotated_def)
qed

lemma list_loop_fail:
  assumes "same_file g f"
    and "\<forall>e \<in> set pre. \<not> isl (fst (read_inode f sb (fst e)))"
    and "fst (read_inode f sb c) = Inl err"
  shows "fst (list_loop g sb (pre @ (c, n) # post) out) = Inl err"
  using assms(1,2)
proof (induction pre arbitrary: g out)
  case Nil
  have "fst (read_inode g sb c) = Inl err"
    using assms(3) read_inode_fst [OF Nil(1), of sb c] by simp
  then obtain g1 where "read_inode g sb c = (Inl err, g1)"
    by (cases "read_inode g sb c") simp
  then show ?case by simp
next
  case (Cons e pre)
  obtain c' n' where e: "e = (c', n')" by (cases e)
  have "\<not> isl (fst (read_inode f sb c'))" using Cons.prems(2) e by simp
  then obtain ch where "fst (read_inode f sb c') = Inr ch"
    by (cases "fst (read_inode f sb c')") simp_all
  then have "fst (read_inode g sb c') = Inr ch"
    using read_inode_fst [OF Cons.prems(1), of sb c'] by simp
  then obtain g1 where rg: "read_inode g sb c' = (Inr ch, g1)"
    by (cases "read_inode g sb c'") simp
  then have "same_file g1 g" using read_inode_same [of g sb c'] by simp
  then have d1: "same_file g1 f" using Cons.prems(1) by (rule same_file_trans)
  have "\<forall>e \<in> set pre. \<not> isl (fst (read_inode f sb (fst e)))"
    using Cons.prems(2) by simp
  from Cons.IH [OF d1 this, of "out @ [n' @ (if is_dir ch then ''/'' else [])]"]
  show ?case using e rg by simp
qed

lemma first_failure:
  assumes "Q (k::nat)" and "isl (rd k)"
  shows "\<exists>m e. Q m \<and> (\<forall>j<m. Q j \<longrightarrow> \<not> isl (rd j)) \<and> rd m = Inl e"
proof -
  let ?P = "\<lambda>m. Q m \<and> isl (rd m)"
  have "\<exists>m. ?P m" using assms by blast
  then obtain m where m: "?P m" and least: "\<forall>j<m. \<not> ?P j"
    unfolding exists_least_iff [of ?P] by blast
  obtain e where "rd m = Inl e" using m by (cases "rd m") simp_all
  with m least show ?thesis by blast
qed

lemma list_dir_unfold:
  assumes "fst (resolve_path dec f sb path) = Inr i" and "fst (read_inode f sb i) = Inr ino"
  shows "\<exists>g. same_file g f \<and> fst (list_dir dec f sb path) =
      (if \<not> is_dir ino then Inl NotADirectory
       else if direct ino ! 0 = 0 then Inr []
       else (case fst (read_block f sb (direct ino ! 0)) of
               Inl e \<Rightarrow> Inl e
             | Inr blk \<Rightarrow> fst (list_loop g sb (parse_dir_block dec blk) [])))"
proof -
  obtain f1 where a: "resolve_path dec f sb path = (Inr i, f1)"
    using assms(1) by (cases "resolve_path dec f sb path") simp
  then have d1: "same_file f1 f" using resolve_path_same [of dec f sb path] by simp
  have "fst (read_inode f1 sb i) = Inr ino"
    using assms(2) read_inode_fst [OF d1, of sb i] by simp
  then obtain f2 where b: "read_inode f1 sb i = (Inr ino, f2)"
    by (cases "read_inode f1 sb i") simp
  then have "same_file f2 f1" using read_inode_same [of f1 sb i] by simp
  then have d2: "same_file f2 f" using d1 by (rule same_file_trans)
  have g: "py_get (direct ino) 0 = Inr (direct ino ! 0)"
    using assms(2) by (rule py_get_direct)
  obtain r3 f3 where c: "read_block f2 sb (direct ino ! 0) = (r3, f3)"
    by (cases "read_block f2 sb (direct ino ! 0)")
  then have "same_file f3 f2" using read_block_same [of f2 sb "direct ino ! 0"] by simp
  then have d3: "same_file f3 f" using d2 by (rule same_file_trans)
  have r3: "fst (read_block f sb (direct ino ! 0)) = r3"
    using c read_block_fst [OF d2, of sb "direct ino ! 0"] by simp
  have "fst (list_dir dec f sb path) =
      (if \<not> is_dir ino then Inl NotADirectory
       else if direct ino ! 0 = 0 then Inr []
       else (case fst (read_block f sb (direct ino ! 0)) of
               Inl e \<Rightarrow> Inl e
             | Inr blk \<Rightarrow> fst (list_loop f3 sb (parse_dir_block dec blk) [])))"
    unfolding r3 using a b g c
    by (simp add: list_dir_def split: sum.splits)
  with d3 show ?thesis by blast
qed

text \<open>
  Claim C8, as amended. For a path that resolves to an inode that can be read,
  \<open>list_dir\<close> fails with \<open>NotADirectory\<close> when the inode is not a directory and returns
  the empty list when its first direct block id is 0. Otherwise it reads that one block,
  and fails with the error of that read when the block cannot be read. When the block
  and the inode of every live record can be read, it returns the names of the records of
  the block in on-disk order, the records with inode id 0 left out, each with the
  directory marker when the child is a directory. When the inode of some live record
  cannot be read, it fails, and the error is the one \<open>read_inode\<close> gives for the first live
  record, in on-disk order, whose inode cannot be read.
\<close>

theorem list_dir_result:
  assumes "fst (resolve_path dec f sb path) = Inr i" and "fst (read_inode f sb i) = Inr ino"
  shows "(\<not> is_dir ino \<longrightarrow> fst (list_dir dec f sb path) = Inl NotADirectory)
     \<and> (is_dir ino \<and> direct ino ! 0 = 0 \<longrightarrow> fst (list_dir dec f sb path) = Inr [])
     \<and> (is_dir ino \<and> direct ino ! 0 \<noteq> 0 \<longrightarrow>
          (\<forall>blk. fst (read_block f sb (direct ino ! 0)) = Inr blk \<longrightarrow>
             (children_readable f sb blk \<longrightarrow>
                fst (list_dir dec f sb path) = Inr (expected_listing dec f sb blk))
           \<and> (\<not> children_readable f sb blk \<longrightarrow> isl (fst (list_dir dec f sb path)))
           \<and> (\<forall>k e. k < length blk div 64 \<and> slot_id blk k \<noteq> 0
                  \<and> (\<forall>j<k. slot_id blk j \<noteq> 0
                         \<longrightarrow> \<not> isl (fst (read_inode f sb (slot_id blk j))))
                  \<and> fst (read_inode f sb (slot_id blk k)) = Inl e
                \<longrightarrow> fst (list_dir dec f sb path) = Inl e))
        \<and> (\<forall>e. fst (read_block f sb (direct ino ! 0)) = Inl e \<longrightarrow>
               fst (list_dir dec f sb path) = Inl e))"
proof -
  obtain g where dg: "same_file g f"
    and u: "fst (list_dir dec f sb path) =
      (if \<not> is_dir ino then Inl NotADirectory
       else if direct ino ! 0 = 0 then Inr []
       else (case fst (read_block f sb (direct ino ! 0)) of
               Inl e \<Rightarrow> Inl e
             | Inr blk \<Rightarrow> fst (list_loop g sb (parse_dir_block dec blk) [])))"
    using list_dir_unfold [OF assms] by blast
  have ok: "fst (list_loop g sb (parse_dir_block dec blk) []) = Inr (expected_listing dec f sb blk)"
    if "children_readable f sb blk" for blk
  proof -
    have "\<forall>e \<in> set (parse_dir_block dec blk). \<not> isl (fst (read_inode f sb (fst e)))"
      using that by (auto simp add: parse_dir_block_slots children_readable_def)
    from list_loop_ok [OF dg this, of "[]"]
    show ?thesis
      by (simp add: parse_dir_block_slots expected_listing_def comp_def)
  qed
  have first: "fst (list_loop g sb (parse_dir_block dec blk) []) = Inl e"
    if k: "k < length blk div 64" and live: "slot_id blk k \<noteq> 0"
      and good: "\<forall>j<k. slot_id blk j \<noteq> 0 \<longrightarrow> \<not> isl (fst (read_inode f sb (slot_id blk j)))"
      and e: "fst (read_inode f sb (slot_id blk k)) = Inl e" for blk k e
  proof -
    let ?F = "\<lambda>j. (slot_id blk j, slot_name dec blk j)"
    let ?pre = "map ?F (filter (\<lambda>j. slot_id blk j \<noteq> 0) [0..<k])"
    let ?post = "map ?F (filter (\<lambda>j. slot_id blk j \<noteq> 0) [Suc k..<length blk div 64])"
    have split: "parse_dir_block dec blk = ?pre @ (slot_id blk k, slot_name dec blk k) # ?post"
      unfolding parse_dir_block_slots upt_split_at [OF k] using live by simp
    have "\<forall>e \<in> set ?pre. \<not> isl (fst (read_inode f sb (fst e)))"
      using good by auto
    from list_loop_fail [OF dg this e]
    show ?thesis unfolding split .
  qed
  have bad: "isl (fst (list_loop g sb (parse_dir_block dec blk) []))"
    if "\<not> children_readable f sb blk" for blk
  proof -
    let ?Q = "\<lambda>j. j < length blk div 64 \<and> slot_id blk j \<noteq> 0"
    from that obtain k where "?Q k" and "isl (fst (read_inode f sb (slot_id blk k)))"
      by (auto simp add: children_readable_def)
    from first_failure [of ?Q k "\<lambda>j. fst (read_inode f sb (slot_id blk j))", OF this]
    obtain m e where m: "?Q m"
      and least: "\<forall>j<m. ?Q j \<longrightarrow> \<not> isl (fst (read_inode f sb (slot_id blk j)))"
      and e: "fst (read_inode f sb (slot_id blk m)) = Inl e"
      by blast
    have "\<forall>j<m. slot_id blk j \<noteq> 0 \<longrightarrow> \<not> isl (fst (read_inode f sb (slot_id blk j)))"
      using m least by auto
    with m e have "fst (list_loop g sb (parse_dir_block dec blk) []) = Inl e"
      by (intro first [of m]) simp_all
    then show ?thesis by simp
  qed
  show ?thesis
  proof (intro conjI allI impI)
    assume "\<not> is_dir ino"
    then show "fst (list_dir dec f sb path) = Inl NotADirectory" unfolding u by simp
  next
    assume "is_dir ino \<and> direct ino ! 0 = 0"
    then show "fst (list_dir dec f sb path) = Inr []" unfolding u by simp
  next
    fix blk
    assume d: "is_dir ino \<and> direct ino ! 0 \<noteq> 0"
      and r: "fst (read_block f sb (direct ino ! 0)) = Inr blk"
      and c: "children_readable f sb blk"
    show "fst (list_dir dec f sb path) = Inr (expected_listing dec f sb blk)"
      unfolding u using d r ok [OF c] by simp
  next
    fix blk
    assume d: "is_dir ino \<and> direct ino ! 0 \<noteq> 0"
      and r: "fst (read_block f sb (direct ino ! 0)) = Inr blk"
      and c: "\<not> children_readable f sb blk"
    show "isl (fst (list_dir dec f sb path))"
      unfolding u using d r bad [OF c] by simp
  next
    fix blk k e
    assume d: "is_dir ino \<and> direct ino ! 0 \<noteq> 0"
      and r: "fst (read_block f sb (direct ino ! 0)) = Inr blk"
      and h: "k < length blk div 64 \<and> slot_id blk k \<noteq> 0
                  \<and> (\<forall>j<k. slot_id blk j \<noteq> 0
                         \<longrightarrow> \<not> isl (fst (read_inode f sb (slot_id blk j))))
                  \<and> fst (read_inode f sb (slot_id blk k)) = Inl e"
    have "fst (list_loop g sb (parse_dir_block dec blk) []) = Inl e"
      using h by (intro first [of k]) simp_all
    then show "fst (list_dir dec f sb path) = Inl e"
      unfolding u using d r by simp
  next
    fix e
    assume d: "is_dir ino \<and> direct ino ! 0 \<noteq> 0"
      and r: "fst (read_block f sb (direct ino ! 0)) = Inl e"
    show "fst (list_dir dec f sb path) = Inl e"
      unfolding u using d r by simp
  qed
qed

section \<open>The bitmap\<close>

lemma bits_loop_ok:
  assumes "0 \<le> i" and "i + int n \<le> 8 * int (length bmp)"
  shows "\<exists>u'. bits_loop bmp n i u = Inr (i + int n, u')"
  using assms
proof (induction n arbitrary: i u)
  case 0
  show ?case by simp
next
  case (Suc n)
  have "0 \<le> i div 8" and "i div 8 < int (length bmp)"
    using Suc.prems by simp_all
  then have g: "py_get bmp (i div 8) = Inr (bmp ! nat (i div 8))"
    by (simp add: py_get_def)
  have "0 \<le> i + 1" and "i + 1 + int n \<le> 8 * int (length bmp)"
    using Suc.prems by simp_all
  from Suc.IH [OF this]
  have ih: "\<And>v. \<exists>u'. bits_loop bmp n (i + 1) v = Inr (i + 1 + int n, u')" by blast
  have e: "i + 1 + int n = i + int (Suc n)" by simp
  let ?v = "if drop_bit (nat (i mod 8)) (uint (bmp ! nat (i div 8))) AND 1 \<noteq> 0
    then u + 1 else u"
  have "bits_loop bmp (Suc n) i u = bits_loop bmp n (i + 1) ?v"
    by (simp only: bits_loop.simps g sum.case)
  with ih [of ?v] show ?case unfolding e by simp
qed

lemma bits_loop_past_end:
  assumes "int (length bmp) \<le> i div 8"
  shows "bits_loop bmp (Suc n) i u = Inl IndexError"
proof -
  have "0 \<le> i div 8" using assms by linarith
  then have "py_get bmp (i div 8) = Inl IndexError"
    using assms by (simp add: py_get_def)
  then show ?thesis by simp
qed

text \<open>
  Claim C1 does not hold of the code. \<open>bit_index\<close> runs on from one bitmap block to the
  next while each block's bytes are indexed from 0, so whenever the data region needs a
  second bitmap block (more data blocks than one block has bits), the first bit looked up
  in the second block is one byte past its end and \<open>bitmap_stats\<close> stops with Python's
  \<open>IndexError\<close> instead of returning the three counts.
\<close>

theorem bitmap_stats_second_block:
  assumes "0 < blockSize sb" and "8 * blockSize sb < dataBlockCount sb"
    and "2 \<le> freeBitmapBlocks sb"
    and "\<not> isl (fst (read_block f sb (freeBitmapStart sb)))"
    and "\<not> isl (fst (read_block f sb (freeBitmapStart sb + 1)))"
  shows "fst (bitmap_stats f sb) = Inl IndexError"
proof -
  let ?bs = "blockSize sb" and ?n = "freeBitmapBlocks sb" and ?total = "dataBlockCount sb"
  let ?s = "freeBitmapStart sb"
  have range: "[0..?n - 1] = 0 # 1 # [2..?n - 1]"
    using assms(3) by (simp add: upto_rec1 [of 0] upto_rec1 [of 1])
  obtain bmp1 f1 where r1: "read_block f sb (?s + 0) = (Inr bmp1, f1)"
    using assms(4) by (cases "read_block f sb ?s"; cases "fst (read_block f sb ?s)") auto
  then have l1: "int (length bmp1) = ?bs" by (rule read_block_length)
  have d1: "same_file f1 f" using r1 read_block_same [of f sb "?s + 0"] by simp
  have "\<not> isl (fst (read_block f1 sb (?s + 1)))"
    using assms(5) read_block_fst [OF d1, of sb "?s + 1"] by simp
  then obtain bmp2 f2 where r2: "read_block f1 sb (?s + 1) = (Inr bmp2, f2)"
    by (cases "read_block f1 sb (?s + 1)"; cases "fst (read_block f1 sb (?s + 1))") auto
  then have l2: "int (length bmp2) = ?bs" by (rule read_block_length)
  have m1: "min (int (length bmp1) * 8) ?total = 8 * ?bs"
    using assms(2) l1 by simp
  obtain u1 where b1: "bits_loop bmp1 (nat (8 * ?bs)) 0 0 = Inr (8 * ?bs, u1)"
    using bits_loop_ok [of 0 "nat (8 * ?bs)" bmp1 0] assms(1) l1 by auto
  have pos2: "0 < min (int (length bmp2) * 8) (?total - 8 * ?bs)"
    using assms(1,2) l2 by simp
  then have "0 < nat (min (int (length bmp2) * 8) (?total - 8 * ?bs))"
    by (simp only: zero_less_nat_eq)
  then obtain m where m: "nat (min (int (length bmp2) * 8) (?total - 8 * ?bs)) = Suc m"
    using gr0_implies_Suc by blast
  have b2: "bits_loop bmp2 (Suc m) (8 * ?bs) u1 = Inl IndexError"
    by (rule bits_loop_past_end) (simp add: l2)
  have step2: "bitmap_loop f1 sb (1 # [2..?n - 1]) (?total - 8 * ?bs) (8 * ?bs) u1
      = (Inl IndexError, f2)"
    using assms(2) r2 m b2 by (simp add: Let_def)
  have "bitmap_loop f sb (0 # 1 # [2..?n - 1]) ?total 0 0 = (Inl IndexError, f2)"
    using assms(1,2) r1 m1 b1 step2 by (simp add: Let_def)
  then show ?thesis
    by (simp add: bitmap_stats_def range)
qed


lemma bitmap_loop_done:
  assumes "remaining \<le> 0"
  shows "bitmap_loop f sb bs remaining i u = (Inr u, f)"
  using assms by (cases bs) simp_all

text \<open>With a data region that one bitmap block covers, the counts are returned and add
  up: the part of claim C1 the code does satisfy.\<close>

lemma bitmap_stats_single_block:
  assumes "dataBlockCount sb \<le> 8 * blockSize sb" and "1 \<le> freeBitmapBlocks sb"
    and "\<not> isl (fst (read_block f sb (freeBitmapStart sb)))"
  shows "\<exists>used. fst (bitmap_stats f sb)
    = Inr (dataBlockCount sb, used, dataBlockCount sb - used)"
proof (cases "dataBlockCount sb \<le> 0")
  case True
  then have "fst (bitmap_stats f sb) = Inr (dataBlockCount sb, 0, dataBlockCount sb - 0)"
    by (simp add: bitmap_stats_def bitmap_loop_done Let_def)
  then show ?thesis by (rule exI)
next
  case False
  let ?bs = "blockSize sb" and ?n = "freeBitmapBlocks sb" and ?total = "dataBlockCount sb"
  let ?s = "freeBitmapStart sb"
  have range: "[0..?n - 1] = 0 # [1..?n - 1]"
    using assms(2) by (simp add: upto_rec1 [of 0])
  obtain bmp1 f1 where r1: "read_block f sb (?s + 0) = (Inr bmp1, f1)"
    using assms(3) by (cases "read_block f sb ?s"; cases "fst (read_block f sb ?s)") auto
  then have l1: "int (length bmp1) = ?bs" by (rule read_block_length)
  have m1: "min (int (length bmp1) * 8) ?total = ?total"
    using assms(1) l1 by simp
  obtain u1 where b1: "bits_loop bmp1 (nat ?total) 0 0 = Inr (0 + int (nat ?total), u1)"
    using bits_loop_ok [of 0 "nat ?total" bmp1 0] assms(1) l1 False by auto
  have "bitmap_loop f sb (0 # [1..?n - 1]) ?total 0 0 = (Inr u1, f1)"
    using False r1 m1 b1 by (simp add: Let_def bitmap_loop_done)
  then have "fst (bitmap_stats f sb) = Inr (?total, u1, ?total - u1)"
    by (simp add: bitmap_stats_def range Let_def)
  then show ?thesis by (rule exI)
qed

section \<open>Evaluation on the sample image\<close>

lemma data_f0 [simp]: "data f0 = img0" "pos f0 = 0" "trace f0 = []" "max_offset f0 = 2 ^ 44"
  by (simp_all add: f0_def)

lemma seekable_f0:
  assumes "0 \<le> off" "off < 2 ^ 44"
  shows "seekable f0 off"
  using assms by (simp add: seekable_def INT64_LIMIT_def)

lemma img0_block:
  "take 256 (drop 1024 img0) = blk_root"
  "take 256 (drop 1280 img0) = blk_sub"
  "take 256 (drop 1536 img0) = blk_bad"
  "take 256 (drop 1792 img0) = blk_hello"
  "take 256 (drop 2048 img0) = blk_world"
  by (simp_all add: img0_def length_inos length_blks)

lemma img0_inode:
  "take 44 (drop 256 img0) = ino0"
  "take 44 (drop 300 img0) = ino1"
  "take 44 (drop 344 img0) = ino2"
  "take 44 (drop 388 img0) = ino3"
  "take 44 (drop 432 img0) = ino4"
  "take 44 (drop 512 img0) = ino5"
  "take 44 (drop 556 img0) = ino6"
  by (simp_all add: img0_def length_inos length_blks)

lemma read_block_f0:
  assumes "0 \<le> b" "b < 10"
  shows "fst (read_block f0 sb0 b) = Inr (take 256 (drop (nat (b * 256)) img0))"
proof -
  have "seekable f0 (b * blockSize sb0)"
    using assms by (intro seekable_f0) (simp_all add: sb0_def)
  moreover have "blockSize sb0 < INT64_LIMIT"
    by (simp add: sb0_def INT64_LIMIT_def)
  ultimately show ?thesis
    using assms by (simp add: read_block_ok sb0_def length_img0)
qed

lemma read_inode_ok:
  assumes "inode_offset sb i = Inr off" "seekable f off" "off + 44 \<le> int (length (data f))"
  shows "fst (read_inode f sb i) = Inr (unpack_inode (take 44 (drop (nat off) (data f))))"
proof -
  let ?f1 = "f\<lparr>pos := nat off, trace := trace f @ [Seek off]\<rparr>"
  have "0 \<le> off" using assms(2) by (simp add: seekable_def)
  then have "read_exact ?f1 44 =
    (Inr (take (nat 44) (drop (pos ?f1) (data ?f1))),
     ?f1\<lparr>pos := pos ?f1 + nat 44, trace := trace ?f1 @ [Read 44]\<rparr>)"
    by (intro read_exact_ok) (use assms in \<open>simp_all add: INT64_LIMIT_def\<close>)
  then show ?thesis
    using assms(1) by (simp add: read_inode_def seek_seekable [OF assms(2)] INODE_SIZE_def)
qed

lemma inode_offset_sb0:
  "inode_offset sb0 0 = Inr 256" "inode_offset sb0 1 = Inr 300" "inode_offset sb0 2 = Inr 344"
  "inode_offset sb0 3 = Inr 388" "inode_offset sb0 4 = Inr 432" "inode_offset sb0 5 = Inr 512"
  "inode_offset sb0 6 = Inr 556"
  by (simp_all add: inode_offset_def sb0_def INODE_SIZE_def file_offset_of_block_def)

lemma unpack_inos:
  "unpack_inode ino0 = \<lparr>id_ino = 0, is_dir = True, size_ino = 0, direct = [4, 0, 0, 0, 0, 0, 0, 0]\<rparr>"
  "unpack_inode ino1 = \<lparr>id_ino = 1, is_dir = True, size_ino = 0, direct = [5, 0, 0, 0, 0, 0, 0, 0]\<rparr>"
  "unpack_inode ino2 = \<lparr>id_ino = 2, is_dir = False, size_ino = 5, direct = [7, 0, 0, 0, 0, 0, 0, 0]\<rparr>"
  "unpack_inode ino3 = \<lparr>id_ino = 3, is_dir = False, size_ino = 300, direct = [7, 8, 0, 0, 0, 0, 0, 0]\<rparr>"
  "unpack_inode ino4 = \<lparr>id_ino = 4, is_dir = True, size_ino = 0, direct = [6, 0, 0, 0, 0, 0, 0, 0]\<rparr>"
  "unpack_inode ino5 = \<lparr>id_ino = 5, is_dir = False, size_ino = 300, direct = [7, 0, 8, 0, 0, 0, 0, 0]\<rparr>"
  "unpack_inode ino6 = \<lparr>id_ino = 6, is_dir = False, size_ino = 300, direct = [99, 0, 0, 0, 0, 0, 0, 0]\<rparr>"
  by (simp_all add: ino0_def ino1_def ino2_def ino3_def ino4_def ino5_def ino6_def
      mk_inode_def enc32_def unpack_inode_def u32_at_def upt_rec)

lemma read_inode_f0:
  "fst (read_inode f0 sb0 0) = Inr (unpack_inode ino0)"
  "fst (read_inode f0 sb0 1) = Inr (unpack_inode ino1)"
  "fst (read_inode f0 sb0 2) = Inr (unpack_inode ino2)"
  "fst (read_inode f0 sb0 3) = Inr (unpack_inode ino3)"
  "fst (read_inode f0 sb0 4) = Inr (unpack_inode ino4)"
  "fst (read_inode f0 sb0 5) = Inr (unpack_inode ino5)"
  "fst (read_inode f0 sb0 6) = Inr (unpack_inode ino6)"
  by (simp_all add: read_inode_ok inode_offset_sb0 seekable_f0 length_img0 img0_inode)

text \<open>Witness for claim C4: one inode id for each of the four cases.\<close>

theorem inode_offset_cases_witness:
  "inode_offset sb0 3 = Inr 388 \<and> inode_offset sb0 7 = Inl InodeOutOfRange
   \<and> inode_offset (sb0\<lparr>blockSize := 32\<rparr>) 0 = Inl InvalidLayout
   \<and> inode_offset (sb0\<lparr>inodeTableBlocks := 1\<rparr>) 5 = Inl GeometryMismatch"
  using inode_offset_cases [of sb0 3] inode_offset_cases [of sb0 7]
    inode_offset_cases [of "sb0\<lparr>blockSize := 32\<rparr>" 0]
    inode_offset_cases [of "sb0\<lparr>inodeTableBlocks := 1\<rparr>" 5]
  by (simp add: sb0_def)

text \<open>Witness for the amended claim C6, on the sample image: a block id out of range, an
  offset the handle cannot seek to, a block that ends after the image, and a block that is
  returned whole.\<close>

theorem read_block_cases_witness:
  "read_block f0 sb0 10 = (Inl BlockOutOfRange, f0)
   \<and> \<not> seekable f0 (16 * blockSize (sb0\<lparr>blockSize := 2 ^ 40, totalBlocks := 20\<rparr>))
   \<and> read_block f0 (sb0\<lparr>blockSize := 2 ^ 40, totalBlocks := 20\<rparr>) 16 = (Inl SeekError, f0)
   \<and> seekable f0 (12 * blockSize (sb0\<lparr>totalBlocks := 20\<rparr>))
   \<and> fst (read_block f0 (sb0\<lparr>totalBlocks := 20\<rparr>) 12) = Inl ShortRead
   \<and> seekable f0 (7 * blockSize sb0)
   \<and> fst (read_block f0 sb0 7) = Inr blk_hello \<and> int (length blk_hello) = blockSize sb0"
  using read_block_cases [of 10 sb0 f0]
    read_block_cases [of 16 "sb0\<lparr>blockSize := 2 ^ 40, totalBlocks := 20\<rparr>" f0]
    read_block_cases [of 12 "sb0\<lparr>totalBlocks := 20\<rparr>" f0]
    read_block_cases [of 7 sb0 f0]
  by (simp add: sb0_def length_img0 img0_block seekable_def INT64_LIMIT_def)

text \<open>
  Claim C6 as stated fails: the third image is a superblock that \<open>read_superblock\<close>
  accepts, block 4294967294 is within \<open>[0, totalBlocks)\<close> and fewer than \<open>blockSize\<close> bytes
  are available at its offset (the image ends long before), yet \<open>read_block\<close> does not fail
  with \<open>ShortRead\<close>: the offset is beyond what a seek accepts, and the seek's own error
  comes first.
\<close>

theorem read_block_seek_overflow_counterexample:
  "fst (read_superblock f_huge) = Inr sb_huge
   \<and> 0 \<le> (4294967294 :: int) \<and> 4294967294 < totalBlocks sb_huge
   \<and> int (length (data f_huge)) < 4294967294 * blockSize sb_huge + blockSize sb_huge
   \<and> read_block f_huge sb_huge 4294967294 = (Inl SeekOverflow, f_huge)
   \<and> fst (read_block f_huge sb_huge 4294967294) \<noteq> Inl ShortRead"
proof -
  have len: "length img_huge = 44"
    by (simp add: img_huge_def length_enc32)
  have f: "data f_huge = img_huge" "pos f_huge = 0"
    by (simp_all add: f_huge_def)
  have spec: "superblock_spec img_huge = sb_huge"
    by (simp add: superblock_spec_def le32_spec_def img_huge_def enc32_def sb_huge_def)
  have sb: "fst (read_superblock f_huge) = Inr sb_huge"
    using read_superblock_eval [of f_huge]
    by (simp add: f len spec) (simp add: sb_huge_def FS_MAGIC_def)
  have rb: "read_block f_huge sb_huge 4294967294 = (Inl SeekOverflow, f_huge)"
    by (simp add: read_block_def file_offset_of_block_def seek_def sb_huge_def INT64_LIMIT_def)
  show ?thesis
    using sb rb by (simp add: f len) (simp add: sb_huge_def)
qed

text \<open>Witness for claim C5: the sample image decodes to its superblock.\<close>

theorem read_superblock_decodes_witness:
  "pos f0 = 0 \<and> 44 \<le> length (data f0) \<and> fst (read_superblock f0) = Inr sb0"
  using read_superblock_decodes [of f0]
  by (simp add: length_img0 sb_spec) (simp add: sb0_def FS_MAGIC_def)

lemma sb0_sel:
  "blockSize sb0 = 256" "totalBlocks sb0 = 10" "inodeCount sb0 = 7" "rootInodeId sb0 = 0"
  "inodeTableStart sb0 = 1" "inodeTableBlocks sb0 = 2"
  by (simp_all add: sb0_def)

lemma parse_blocks:
  "parse_dir_block ascii_dec blk_root = [(1, ''sub''), (4, ''bad''), (2, ''hello.txt''), (5, ''short'')]"
  "parse_dir_block ascii_dec blk_sub = [(2, ''dup''), (3, ''dup''), (1, ''me'')]"
  "parse_dir_block ascii_dec blk_bad = [(9, ''ghost''), (6, ''lost''), (3, ''big'')]"
  by code_simp+

lemma slots_sub:
  "slot_id blk_sub 0 = 0" "slot_name ascii_dec blk_sub 0 = ''dup''"
  "slot_id blk_sub 1 = 2" "slot_name ascii_dec blk_sub 1 = ''dup''"
  "slot_id blk_sub 2 = 3" "slot_name ascii_dec blk_sub 2 = ''dup''"
  by code_simp+

lemma read_block_f0_data:
  "fst (read_block f0 sb0 4) = Inr blk_root"
  "fst (read_block f0 sb0 5) = Inr blk_sub"
  "fst (read_block f0 sb0 6) = Inr blk_bad"
  "fst (read_block f0 sb0 7) = Inr blk_hello"
  "fst (read_block f0 sb0 8) = Inr blk_world"
  by (simp_all add: read_block_f0 img0_block)

lemma walk_sub: "fst (resolve_step ascii_dec f0 sb0 0 ''sub'') = Inr 1"
  by (rule resolve_step_found [where ino = "unpack_inode ino0" and blk = blk_root])
     (simp_all add: read_inode_f0 unpack_inos read_block_f0_data parse_blocks)

text \<open>Witness for claim C7: in \<open>sub\<close>, record 0 is unused and records 1 and 2 are both
  called \<open>dup\<close>; the lookup gives record 1's inode, the walk from \<open>sub\<close> ends on it, and so
  does the resolution of \<open>/sub/dup\<close>.\<close>

theorem resolve_first_duplicate_witness:
  "fst (read_inode f0 sb0 1) = Inr (unpack_inode ino1) \<and> is_dir (unpack_inode ino1)
   \<and> fst (read_block f0 sb0 5) = Inr blk_sub
   \<and> slot_id blk_sub 0 = 0 \<and> slot_name ascii_dec blk_sub 0 = ''dup''
   \<and> slot_id blk_sub 1 = 2 \<and> slot_name ascii_dec blk_sub 1 = ''dup''
   \<and> slot_id blk_sub 2 = 3 \<and> slot_name ascii_dec blk_sub 2 = ''dup''
   \<and> find_child (parse_dir_block ascii_dec blk_sub) ''dup'' = Some 2
   \<and> fst (resolve_step ascii_dec f0 sb0 1 ''dup'') = Inr 2
   \<and> fst (resolve_loop ascii_dec f0 sb0 1 [''dup'']) = Inr 2
   \<and> resolve_loop ascii_dec f0 sb0 1 [''dup'', ''x'']
       = resolve_loop ascii_dec (snd (resolve_step ascii_dec f0 sb0 1 ''dup'')) sb0 2 [''x'']
   \<and> fst (resolve_path ascii_dec f0 sb0 ''/sub/dup'') = Inr 2"
proof -
  have p1: "fst (read_inode f0 sb0 1) = Inr (unpack_inode ino1)"
    by (rule read_inode_f0)
  have p2: "is_dir (unpack_inode ino1)" and p3: "direct (unpack_inode ino1) ! 0 \<noteq> 0"
    by (simp_all add: unpack_inos)
  have p4: "fst (read_block f0 sb0 (direct (unpack_inode ino1) ! 0)) = Inr blk_sub"
    by (simp add: unpack_inos read_block_f0_data)
  have p5: "1 < length blk_sub div 64"
    by (simp add: length_blks)
  have p6: "slot_id blk_sub 1 \<noteq> 0"
    by (simp only: slots_sub)
  have p8: "\<forall>j<1. slot_id blk_sub j = 0 \<or> slot_name ascii_dec blk_sub j \<noteq> ''dup''"
    by (simp add: slots_sub)
  note r = resolve_first_duplicate [OF p1 p2 p3 p4 p5 p6 slots_sub(4) p8]
  have "find_child (parse_dir_block ascii_dec blk_sub) ''dup'' = Some (slot_id blk_sub 1)"
    using r by blast
  then have q1: "find_child (parse_dir_block ascii_dec blk_sub) ''dup'' = Some 2"
    by (simp only: slots_sub)
  have "fst (resolve_step ascii_dec f0 sb0 1 ''dup'') = Inr (slot_id blk_sub 1)"
    using r by blast
  then have q2: "fst (resolve_step ascii_dec f0 sb0 1 ''dup'') = Inr 2"
    by (simp only: slots_sub)
  have "fst (resolve_loop ascii_dec f0 sb0 1 [''dup'']) = Inr (slot_id blk_sub 1)"
    using r by blast
  then have q3: "fst (resolve_loop ascii_dec f0 sb0 1 [''dup'']) = Inr 2"
    by (simp only: slots_sub)
  have "resolve_loop ascii_dec f0 sb0 1 (''dup'' # [''x''])
      = resolve_loop ascii_dec (snd (resolve_step ascii_dec f0 sb0 1 ''dup'')) sb0
          (slot_id blk_sub 1) [''x'']"
    using r by blast
  then have q4: "resolve_loop ascii_dec f0 sb0 1 [''dup'', ''x'']
      = resolve_loop ascii_dec (snd (resolve_step ascii_dec f0 sb0 1 ''dup'')) sb0 2 [''x'']"
    by (simp only: slots_sub)
  have "fst (resolve_loop ascii_dec f0 sb0 0 (''sub'' # [''dup'']))
      = (case fst (resolve_step ascii_dec f0 sb0 0 ''sub'') of
           Inl e \<Rightarrow> Inl e
         | Inr nxt \<Rightarrow> fst (resolve_loop ascii_dec f0 sb0 nxt [''dup'']))"
    by (rule resolve_loop_eval)
  then have "fst (resolve_loop ascii_dec f0 sb0 0 [''sub'', ''dup'']) = Inr 2"
    by (simp only: walk_sub sum.case q3)
  moreover have "resolve_path ascii_dec f0 sb0 ''/sub/dup''
      = resolve_loop ascii_dec f0 sb0 0 [''sub'', ''dup'']"
    by (simp add: resolve_path_def split_path_def sb0_sel del: resolve_loop.simps)
  ultimately have q5: "fst (resolve_path ascii_dec f0 sb0 ''/sub/dup'') = Inr 2"
    by (simp only:)
  show ?thesis
    using p1 p2 q1 q2 q3 q4 q5 slots_sub read_block_f0_data(2) by blast
qed

lemma walk_bad: "resolve_step ascii_dec f0 sb0 0 ''bad'' = (Inr 4, snd (resolve_step ascii_dec f0 sb0 0 ''bad''))"
proof -
  have "fst (resolve_step ascii_dec f0 sb0 0 ''bad'') = Inr 4"
    by (rule resolve_step_found [where ino = "unpack_inode ino0" and blk = blk_root])
       (simp_all add: read_inode_f0 unpack_inos read_block_f0_data parse_blocks)
  then show ?thesis by (metis prod.collapse)
qed

lemma walk_bad_trace:
  "trace (snd (resolve_step ascii_dec f0 sb0 0 ''bad'')) = [Seek 256, Read 44, Seek 1024, Read 256]"
  using resolve_step_success [OF walk_bad]
  by (auto simp add: inode_offset_sb0 read_inode_f0 unpack_inos INODE_SIZE_def
      file_offset_of_block_def sb0_sel)

text \<open>Witness for claim C10: \<open>/bad/ghost\<close> resolves to inode 9 although the table has
  seven inodes; only inodes 0 and 4 are read.\<close>

theorem resolve_last_component_unchecked_witness:
  "split_path ''/bad/ghost'' = [''bad''] @ [''ghost'']
   \<and> fst (resolve_loop ascii_dec f0 sb0 (rootInodeId sb0) [''bad'']) = Inr 4
   \<and> find_child (parse_dir_block ascii_dec blk_bad) ''ghost'' = Some 9
   \<and> inode_offset sb0 9 = Inl InodeOutOfRange
   \<and> fst (resolve_path ascii_dec f0 sb0 ''/bad/ghost'') = Inr 9
   \<and> trace (snd (resolve_path ascii_dec f0 sb0 ''/bad/ghost''))
       = [Seek 256, Read 44, Seek 1024, Read 256, Seek 432, Read 44, Seek 1536, Read 256]"
proof -
  have sp: "split_path ''/bad/ghost'' = [''bad''] @ [''ghost'']"
    by (simp add: split_path_def)
  have walk: "resolve_loop ascii_dec f0 sb0 (rootInodeId sb0) [''bad'']
      = (Inr 4, snd (resolve_step ascii_dec f0 sb0 0 ''bad''))"
    by (subst sb0_sel, simp, subst walk_bad) simp
  have oor: "inode_offset sb0 9 = Inl InodeOutOfRange"
    by (simp add: inode_offset_def sb0_def INODE_SIZE_def)
  have found: "find_child (parse_dir_block ascii_dec blk_bad) ''ghost'' = Some 9"
    by (simp add: parse_blocks)
  have d0: "direct (unpack_inode ino4) ! 0 = 6" "is_dir (unpack_inode ino4)"
    by (simp_all add: unpack_inos)
  have p3: "fst (read_inode f0 sb0 4) = Inr (unpack_inode ino4)"
    by (rule read_inode_f0)
  have p5: "direct (unpack_inode ino4) ! 0 \<noteq> 0"
    by (simp add: d0)
  have p6: "fst (read_block f0 sb0 (direct (unpack_inode ino4) ! 0)) = Inr blk_bad"
    by (simp add: d0 read_block_f0_data)
  have p2: "fst (resolve_loop ascii_dec f0 sb0 (rootInodeId sb0) [''bad'']) = Inr 4"
    by (simp only: walk fst_conv)
  note r = resolve_last_component_unchecked [OF sp p2 p3 d0(2) p5 p6 found]
  from r obtain off where off: "inode_offset sb0 4 = Inr off"
    and tr: "trace (snd (resolve_path ascii_dec f0 sb0 ''/bad/ghost''))
        = trace (snd (resolve_loop ascii_dec f0 sb0 (rootInodeId sb0) [''bad'']))
            @ [Seek off, Read INODE_SIZE,
               Seek (file_offset_of_block sb0 (direct (unpack_inode ino4) ! 0)),
               Read (blockSize sb0)]"
    by blast
  have "off = 432" using off by (simp add: inode_offset_sb0)
  then have "trace (snd (resolve_path ascii_dec f0 sb0 ''/bad/ghost''))
      = [Seek 256, Read 44, Seek 1024, Read 256, Seek 432, Read 44, Seek 1536, Read 256]"
    unfolding tr walk snd_conv walk_bad_trace
    by (simp add: d0 INODE_SIZE_def file_offset_of_block_def sb0_sel)
  with sp p2 found oor r show ?thesis by blast
qed

lemma resolve_step_f0:
  "fst (resolve_step ascii_dec f0 sb0 0 name)
     = (case find_child [(1, ''sub''), (4, ''bad''), (2, ''hello.txt''), (5, ''short'')] name of
          None \<Rightarrow> Inl PathNotFound | Some nxt \<Rightarrow> Inr nxt)"
  "fst (resolve_step ascii_dec f0 sb0 1 name)
     = (case find_child [(2, ''dup''), (3, ''dup''), (1, ''me'')] name of
          None \<Rightarrow> Inl PathNotFound | Some nxt \<Rightarrow> Inr nxt)"
  "fst (resolve_step ascii_dec f0 sb0 4 name)
     = (case find_child [(9, ''ghost''), (6, ''lost''), (3, ''big'')] name of
          None \<Rightarrow> Inl PathNotFound | Some nxt \<Rightarrow> Inr nxt)"
  by (simp_all add: resolve_step_eval read_inode_f0 unpack_inos py_get_first
      read_block_f0_data parse_blocks)

lemma resolve_f0:
  "fst (resolve_path ascii_dec f0 sb0 ''/bad/big'') = Inr 3"
  "fst (resolve_path ascii_dec f0 sb0 ''/bad/lost'') = Inr 6"
  "fst (resolve_path ascii_dec f0 sb0 ''/short'') = Inr 5"
  "fst (resolve_path ascii_dec f0 sb0 ''/sub'') = Inr 1"
  "fst (resolve_path ascii_dec f0 sb0 ''/bad'') = Inr 4"
  "fst (resolve_path ascii_dec f0 sb0 ''/hello.txt'') = Inr 2"
  by (simp_all add: resolve_path_def split_path_def sb0_sel resolve_loop_eval resolve_loop_nil
      resolve_step_f0 del: resolve_loop.simps)

lemma inode_offset_total: "inode_offset (sb\<lparr>totalBlocks := t\<rparr>) i = inode_offset sb i"
  by (simp add: inode_offset_def file_offset_of_block_def Let_def)

lemma read_inode_total: "read_inode f (sb\<lparr>totalBlocks := t\<rparr>) i = read_inode f sb i"
  unfolding read_inode_def inode_offset_total ..

lemma read_block_total:
  assumes "b < t" and "b < totalBlocks sb"
  shows "read_block f (sb\<lparr>totalBlocks := t\<rparr>) b = read_block f sb b"
  using assms
  by (simp add: read_block_def file_offset_of_block_def split: prod.splits sum.splits)

lemma resolve_step_f0_total:
  assumes "6 < t"
  shows "fst (resolve_step ascii_dec f0 (sb0\<lparr>totalBlocks := t\<rparr>) 0 name)
     = (case find_child [(1, ''sub''), (4, ''bad''), (2, ''hello.txt''), (5, ''short'')] name of
          None \<Rightarrow> Inl PathNotFound | Some nxt \<Rightarrow> Inr nxt)"
    and "fst (resolve_step ascii_dec f0 (sb0\<lparr>totalBlocks := t\<rparr>) 4 name)
     = (case find_child [(9, ''ghost''), (6, ''lost''), (3, ''big'')] name of
          None \<Rightarrow> Inl PathNotFound | Some nxt \<Rightarrow> Inr nxt)"
  using assms
  by (simp_all add: resolve_step_eval read_inode_total read_block_total read_inode_f0
      unpack_inos py_get_first sb0_sel read_block_f0_data parse_blocks)

lemma resolve_f0_total:
  assumes "6 < t"
  shows "fst (resolve_path ascii_dec f0 (sb0\<lparr>totalBlocks := t\<rparr>) ''/bad/big'') = Inr 3"
    and "fst (resolve_path ascii_dec f0 (sb0\<lparr>totalBlocks := t\<rparr>) ''/bad/lost'') = Inr 6"
  by (simp_all add: resolve_path_def split_path_def sb0_sel resolve_loop_eval resolve_loop_nil
      resolve_step_f0_total [OF assms] del: resolve_loop.simps)

lemma block_bytes_f0:
  "block_bytes img0 sb0 7 = blk_hello" "block_bytes img0 sb0 8 = blk_world"
  by (simp_all add: block_bytes_def sb0_sel img0_block)

lemma leading_f0:
  "leading_blocks (unpack_inode ino3) = [7, 8]" "leading_blocks (unpack_inode ino5) = [7]"
  "leading_blocks (unpack_inode ino6) = [99]"
  by (simp_all add: leading_blocks_def unpack_inos)

lemma visited_f0:
  "visited_readable f0 sb0 (unpack_inode ino3)" "visited_readable f0 sb0 (unpack_inode ino5)"
  unfolding visited_readable_def leading_f0
  by (simp_all add: read_block_f0_data sb0_sel atLeast0_lessThan_Suc)

text \<open>Witness for the amended claim C3: \<open>/bad/big\<close> (300 bytes over two blocks) is
  returned whole, \<open>/short\<close> (300 bytes, one leading block) is truncated. With a block count
  of 8 instead of 10, the second block of \<open>/bad/big\<close> is out of range after the first was
  read, and with a block count of 100 the one block of \<open>/bad/lost\<close>, block 99, is in range
  but lies after the end of the image.\<close>

theorem read_file_content_result_witness:
  "fst (resolve_path ascii_dec f0 sb0 ''/bad/big'') = Inr 3
   \<and> fst (read_inode f0 sb0 3) = Inr (unpack_inode ino3)
   \<and> visited_readable f0 sb0 (unpack_inode ino3)
   \<and> fst (read_file_content ascii_dec f0 sb0 ''/bad/big'') = Inr (blk_hello @ take 44 blk_world)
   \<and> int (length (blk_hello @ take 44 blk_world)) = size_ino (unpack_inode ino3)
   \<and> fst (resolve_path ascii_dec f0 sb0 ''/short'') = Inr 5
   \<and> visited_readable f0 sb0 (unpack_inode ino5)
   \<and> fst (read_file_content ascii_dec f0 sb0 ''/short'') = Inl TruncatedFile
   \<and> leading_blocks (unpack_inode ino3) = [7, 8]
   \<and> fst (read_block f0 (sb0\<lparr>totalBlocks := 8\<rparr>) 7) = Inr blk_hello
   \<and> fst (read_block f0 (sb0\<lparr>totalBlocks := 8\<rparr>) 8) = Inl BlockOutOfRange
   \<and> fst (read_file_content ascii_dec f0 (sb0\<lparr>totalBlocks := 8\<rparr>) ''/bad/big'')
       = Inl BlockOutOfRange
   \<and> leading_blocks (unpack_inode ino6) = [99]
   \<and> fst (read_block f0 (sb0\<lparr>totalBlocks := 100\<rparr>) 99) = Inl ShortRead
   \<and> fst (read_file_content ascii_dec f0 (sb0\<lparr>totalBlocks := 100\<rparr>) ''/bad/lost'')
       = Inl ShortRead"
proof -
  have nd: "\<not> is_dir (unpack_inode ino3)" "\<not> is_dir (unpack_inode ino5)"
    "\<not> is_dir (unpack_inode ino6)"
    and bs: "0 \<le> blockSize sb0"
    by (simp_all add: unpack_inos sb0_sel)
  have s3: "size_ino (unpack_inode ino3) = 300" and s5: "size_ino (unpack_inode ino5) = 300"
    and s6: "size_ino (unpack_inode ino6) = 300"
    by (simp_all add: unpack_inos)
  have c3: "take (nat 300) (concat (map (block_bytes (data f0) sb0) [7, 8]))
      = blk_hello @ take 44 blk_world"
    by (simp add: block_bytes_f0 length_blks)
  have "fst (read_file_content ascii_dec f0 sb0 ''/bad/big'')
      = (if int (length (leading_blocks (unpack_inode ino3))) * blockSize sb0
            < size_ino (unpack_inode ino3)
         then Inl TruncatedFile
         else Inr (take (nat (size_ino (unpack_inode ino3)))
                (concat (map (block_bytes (data f0) sb0) (leading_blocks (unpack_inode ino3))))))"
    using read_file_content_result [OF resolve_f0(1) read_inode_f0(4) nd(1) bs] visited_f0(1)
    by blast
  then have big: "fst (read_file_content ascii_dec f0 sb0 ''/bad/big'')
      = Inr (blk_hello @ take 44 blk_world)"
    unfolding leading_f0 s3 c3 sb0_sel by simp
  have "fst (read_file_content ascii_dec f0 sb0 ''/short'') = Inl TruncatedFile
      \<longleftrightarrow> visited_readable f0 sb0 (unpack_inode ino5)
        \<and> int (length (leading_blocks (unpack_inode ino5))) * blockSize sb0
            < size_ino (unpack_inode ino5)"
    using read_file_content_result [OF resolve_f0(3) read_inode_f0(6) nd(2) bs] by blast
  then have short: "fst (read_file_content ascii_dec f0 sb0 ''/short'') = Inl TruncatedFile"
    unfolding leading_f0 s5 sb0_sel using visited_f0(2) by simp
  have len: "int (length (blk_hello @ take 44 blk_world)) = size_ino (unpack_inode ino3)"
    by (simp add: length_blks unpack_inos)
  let ?sb8 = "sb0\<lparr>totalBlocks := 8\<rparr>" and ?sb100 = "sb0\<lparr>totalBlocks := 100\<rparr>"
  have b7: "fst (read_block f0 ?sb8 7) = Inr blk_hello"
    by (simp add: read_block_total sb0_sel read_block_f0_data)
  have b8: "fst (read_block f0 ?sb8 8) = Inl BlockOutOfRange"
    by (simp add: read_block_range)
  have b99: "fst (read_block f0 ?sb100 99) = Inl ShortRead"
    by (rule read_block_short)
       (simp_all add: sb0_sel length_img0 seekable_def INT64_LIMIT_def)
  have i3: "fst (read_inode f0 ?sb8 3) = Inr (unpack_inode ino3)"
    and i6: "fst (read_inode f0 ?sb100 6) = Inr (unpack_inode ino6)"
    by (simp_all only: read_inode_total read_inode_f0)
  have bs8: "0 \<le> blockSize ?sb8" and bs100: "0 \<le> blockSize ?sb100"
    by (simp_all add: sb0_sel)
  have r8: "fst (resolve_path ascii_dec f0 ?sb8 ''/bad/big'') = Inr 3"
    by (rule resolve_f0_total) simp
  have r100: "fst (resolve_path ascii_dec f0 ?sb100 ''/bad/lost'') = Inr 6"
    by (rule resolve_f0_total) simp
  have h8: "1 < length (leading_blocks (unpack_inode ino3))
      \<and> int 1 * blockSize ?sb8 < size_ino (unpack_inode ino3)
      \<and> (\<forall>j<1. \<not> isl (fst (read_block f0 ?sb8 (leading_blocks (unpack_inode ino3) ! j))))
      \<and> fst (read_block f0 ?sb8 (leading_blocks (unpack_inode ino3) ! 1)) = Inl BlockOutOfRange"
    unfolding leading_f0 s3 using b7 b8 by (simp add: sb0_sel)
  have range: "fst (read_file_content ascii_dec f0 ?sb8 ''/bad/big'') = Inl BlockOutOfRange"
    using read_file_content_result [OF r8 i3 nd(1) bs8] h8 by blast
  have h100: "0 < length (leading_blocks (unpack_inode ino6))
      \<and> int 0 * blockSize ?sb100 < size_ino (unpack_inode ino6)
      \<and> (\<forall>j<0. \<not> isl (fst (read_block f0 ?sb100 (leading_blocks (unpack_inode ino6) ! j))))
      \<and> fst (read_block f0 ?sb100 (leading_blocks (unpack_inode ino6) ! 0)) = Inl ShortRead"
    unfolding leading_f0 s6 using b99 by simp
  have eof: "fst (read_file_content ascii_dec f0 ?sb100 ''/bad/lost'') = Inl ShortRead"
    using read_file_content_result [OF r100 i6 nd(3) bs100] h100 by blast
  show ?thesis
    using big short len resolve_f0(1,3) read_inode_f0(4) visited_f0 leading_f0(1,3)
      b7 b8 b99 range eof
    by blast
qed

text \<open>
  Claim C3 as stated fails: \<open>/bad/lost\<close> is a file of recorded size 300 whose only leading
  non-zero direct block is 99, in an image of ten blocks of 256 bytes. Its size exceeds
  what that block can supply, yet the failure is the block accessor's out-of-range error,
  not \<open>TruncatedFile\<close>.
\<close>

theorem read_file_content_block_error_counterexample:
  "fst (resolve_path ascii_dec f0 sb0 ''/bad/lost'') = Inr 6
   \<and> fst (read_inode f0 sb0 6) = Inr (unpack_inode ino6)
   \<and> \<not> is_dir (unpack_inode ino6)
   \<and> size_ino (unpack_inode ino6) = 300
   \<and> leading_blocks (unpack_inode ino6) = [99]
   \<and> blockSize sb0 = 256
   \<and> fst (read_file_content ascii_dec f0 sb0 ''/bad/lost'') = Inl BlockOutOfRange"
proof -
  have nd: "\<not> is_dir (unpack_inode ino6)" by (simp add: unpack_inos)
  obtain g where "fst (read_file_content ascii_dec f0 sb0 ''/bad/lost'') =
      (case fst (content_loop g sb0 (direct (unpack_inode ino6)) (size_ino (unpack_inode ino6)) []) of
         Inl e \<Rightarrow> Inl e
       | Inr (remaining, chunks) \<Rightarrow>
           if remaining \<noteq> 0 then Inl TruncatedFile else Inr (concat chunks))"
    using read_file_content_unfold [OF resolve_f0(2) read_inode_f0(7) nd] by blast
  then have "fst (read_file_content ascii_dec f0 sb0 ''/bad/lost'') = Inl BlockOutOfRange"
    by (simp add: unpack_inos read_block_range sb0_sel)
  moreover have "size_ino (unpack_inode ino6) = 300"
    by (simp add: unpack_inos)
  ultimately show ?thesis
    using resolve_f0(2) read_inode_f0(7) nd leading_f0(3) sb0_sel(1) by blast
qed

lemma slots_sub_last:
  "slot_id blk_sub 3 = 1" "slot_name ascii_dec blk_sub 3 = ''me''"
  by code_simp+

lemma slots_sub_range: "[0..<length blk_sub div 64] = [0, 1, 2, 3]"
  by (simp add: length_blks upt_rec)

lemma children_sub: "children_readable f0 sb0 blk_sub"
  unfolding children_readable_def atLeastLessThan_upt slots_sub_range
  by (simp add: slots_sub [unfolded One_nat_def] slots_sub_last read_inode_f0)

lemma listing_sub: "expected_listing ascii_dec f0 sb0 blk_sub = [''dup'', ''dup'', ''me/'']"
  unfolding expected_listing_def slots_sub_range
  by (simp add: slots_sub [unfolded One_nat_def] slots_sub_last annotated_def read_inode_f0
      unpack_inos)

lemma slots_root:
  "slot_id blk_root 0 = 1" "slot_id blk_root 1 = 4" "slot_id blk_root 2 = 2"
  "slot_id blk_root 3 = 5"
  by code_simp+

lemma inode_offset_table:
  "inode_offset (sb0\<lparr>inodeTableBlocks := 1\<rparr>) 1 = Inr 300"
  "inode_offset (sb0\<lparr>inodeTableBlocks := 1\<rparr>) 4 = Inr 432"
  "inode_offset (sb0\<lparr>inodeTableBlocks := 1\<rparr>) 2 = Inr 344"
  "inode_offset (sb0\<lparr>inodeTableBlocks := 1\<rparr>) 0 = Inr 256"
  "inode_offset (sb0\<lparr>inodeTableBlocks := 1\<rparr>) 5 = Inl GeometryMismatch"
  by (simp_all add: inode_offset_def sb0_def INODE_SIZE_def file_offset_of_block_def)

lemma read_inode_table:
  "fst (read_inode f0 (sb0\<lparr>inodeTableBlocks := 1\<rparr>) 1) = Inr (unpack_inode ino1)"
  "fst (read_inode f0 (sb0\<lparr>inodeTableBlocks := 1\<rparr>) 4) = Inr (unpack_inode ino4)"
  "fst (read_inode f0 (sb0\<lparr>inodeTableBlocks := 1\<rparr>) 2) = Inr (unpack_inode ino2)"
  "fst (read_inode f0 (sb0\<lparr>inodeTableBlocks := 1\<rparr>) 0) = Inr (unpack_inode ino0)"
  by (simp_all add: read_inode_ok inode_offset_table seekable_f0 length_img0 img0_inode)

lemma read_inode_table_mismatch:
  "fst (read_inode f0 (sb0\<lparr>inodeTableBlocks := 1\<rparr>) 5) = Inl GeometryMismatch"
  by (simp add: read_inode_def inode_offset_table)

lemma read_block_table:
  "fst (read_block f0 (sb0\<lparr>inodeTableBlocks := 1\<rparr>) 4) = Inr blk_root"
proof -
  have "read_block f0 (sb0\<lparr>inodeTableBlocks := 1\<rparr>) 4 = read_block f0 sb0 4"
    by (simp add: read_block_def file_offset_of_block_def split: prod.splits sum.splits)
  then show ?thesis by (simp only: read_block_f0_data)
qed

text \<open>Witness for the amended claim C8: \<open>/sub\<close> lists its three live records in order,
  and \<open>/hello.txt\<close> is not a directory. With an inode table of one block instead of two,
  the root directory's first three children can be read and the fourth, inode 5, lies in
  the missing table block: the listing fails with the geometry error of that read.\<close>

theorem list_dir_result_witness:
  "fst (resolve_path ascii_dec f0 sb0 ''/sub'') = Inr 1
   \<and> fst (read_inode f0 sb0 1) = Inr (unpack_inode ino1)
   \<and> fst (read_block f0 sb0 5) = Inr blk_sub
   \<and> children_readable f0 sb0 blk_sub
   \<and> fst (list_dir ascii_dec f0 sb0 ''/sub'') = Inr [''dup'', ''dup'', ''me/'']
   \<and> fst (resolve_path ascii_dec f0 sb0 ''/hello.txt'') = Inr 2
   \<and> fst (list_dir ascii_dec f0 sb0 ''/hello.txt'') = Inl NotADirectory
   \<and> fst (read_block f0 (sb0\<lparr>inodeTableBlocks := 1\<rparr>) 4) = Inr blk_root
   \<and> slot_id blk_root 0 = 1 \<and> slot_id blk_root 1 = 4 \<and> slot_id blk_root 2 = 2
   \<and> slot_id blk_root 3 = 5
   \<and> fst (read_inode f0 (sb0\<lparr>inodeTableBlocks := 1\<rparr>) 5) = Inl GeometryMismatch
   \<and> fst (list_dir ascii_dec f0 (sb0\<lparr>inodeTableBlocks := 1\<rparr>) ''/'') = Inl GeometryMismatch"
proof -
  have d: "is_dir (unpack_inode ino1)" "direct (unpack_inode ino1) ! 0 = 5"
    "\<not> is_dir (unpack_inode ino2)"
    by (simp_all add: unpack_inos)
  have "fst (list_dir ascii_dec f0 sb0 ''/sub'') = Inr (expected_listing ascii_dec f0 sb0 blk_sub)"
    using list_dir_result [OF resolve_f0(4) read_inode_f0(2)] d(1) children_sub
    unfolding d(2) using read_block_f0_data(2) by auto
  then have sub: "fst (list_dir ascii_dec f0 sb0 ''/sub'') = Inr [''dup'', ''dup'', ''me/'']"
    unfolding listing_sub .
  have plain: "fst (list_dir ascii_dec f0 sb0 ''/hello.txt'') = Inl NotADirectory"
    using list_dir_result [OF resolve_f0(6) read_inode_f0(3)] d(3) by blast
  let ?sb = "sb0\<lparr>inodeTableBlocks := 1\<rparr>"
  have r: "fst (resolve_path ascii_dec f0 ?sb ''/'') = Inr 0"
    by (simp add: resolve_path_def sb0_sel)
  have d0: "is_dir (unpack_inode ino0) \<and> direct (unpack_inode ino0) ! 0 \<noteq> 0"
    by (simp add: unpack_inos)
  have b: "fst (read_block f0 ?sb (direct (unpack_inode ino0) ! 0)) = Inr blk_root"
    by (simp add: unpack_inos read_block_table)
  have j: "j < 3 \<longleftrightarrow> j = 0 \<or> j = 1 \<or> j = 2" for j :: nat
    by auto
  have h: "3 < length blk_root div 64 \<and> slot_id blk_root 3 \<noteq> 0
      \<and> (\<forall>j<3. slot_id blk_root j \<noteq> 0
             \<longrightarrow> \<not> isl (fst (read_inode f0 ?sb (slot_id blk_root j))))
      \<and> fst (read_inode f0 ?sb (slot_id blk_root 3)) = Inl GeometryMismatch"
    by (simp add: j length_blks slots_root [unfolded One_nat_def] read_inode_table
        read_inode_table_mismatch)
  have mismatch: "fst (list_dir ascii_dec f0 ?sb ''/'') = Inl GeometryMismatch"
    using list_dir_result [OF r read_inode_table(4)] d0 b h by blast
  show ?thesis
    using sub plain resolve_f0(4,6) read_inode_f0(2) read_block_f0_data(2) children_sub
      read_block_table slots_root read_inode_table_mismatch mismatch
    by blast
qed

text \<open>
  Claim C8 as stated fails: \<open>/bad\<close> resolves to a directory whose first block is not 0, but
  its first record names inode 9 of a table of seven inodes, and listing it fails with the
  inode accessor's out-of-range error instead of returning the entries.
\<close>

theorem list_dir_dangling_child_counterexample:
  "fst (resolve_path ascii_dec f0 sb0 ''/bad'') = Inr 4
   \<and> fst (read_inode f0 sb0 4) = Inr (unpack_inode ino4)
   \<and> is_dir (unpack_inode ino4) \<and> direct (unpack_inode ino4) ! 0 = 6
   \<and> fst (read_block f0 sb0 6) = Inr blk_bad
   \<and> parse_dir_block ascii_dec blk_bad = [(9, ''ghost''), (6, ''lost''), (3, ''big'')]
   \<and> inodeCount sb0 = 7
   \<and> fst (list_dir ascii_dec f0 sb0 ''/bad'') = Inl InodeOutOfRange"
proof -
  have d: "is_dir (unpack_inode ino4)" "direct (unpack_inode ino4) ! 0 = 6"
    by (simp_all add: unpack_inos)
  have oor: "inode_offset sb0 9 = Inl InodeOutOfRange"
    by (simp add: inode_offset_def sb0_def INODE_SIZE_def)
  obtain g where "fst (list_dir ascii_dec f0 sb0 ''/bad'') =
      (if \<not> is_dir (unpack_inode ino4) then Inl NotADirectory
       else if direct (unpack_inode ino4) ! 0 = 0 then Inr []
       else (case fst (read_block f0 sb0 (direct (unpack_inode ino4) ! 0)) of
               Inl e \<Rightarrow> Inl e
             | Inr blk \<Rightarrow> fst (list_loop g sb0 (parse_dir_block ascii_dec blk) [])))"
    using list_dir_unfold [OF resolve_f0(5) read_inode_f0(5)] by blast
  then have "fst (list_dir ascii_dec f0 sb0 ''/bad'') = Inl InodeOutOfRange"
    unfolding d(2) read_block_f0_data parse_blocks
    using d(1) by (simp add: read_inode_def oor parse_blocks)
  then show ?thesis
    using resolve_f0(5) read_inode_f0(5) d read_block_f0_data(3) parse_blocks(3) sb0_sel(3)
    by blast
qed

lemma length_img_multi: "length img_multi = 33088"
  by (simp add: img_multi_def length_mk_inode)

text \<open>The failing input of claim C1: the second image decodes to its superblock, both
  bitmap blocks can be read, and \<open>bitmap_stats\<close> raises \<open>IndexError\<close>.\<close>

theorem bitmap_stats_second_block_witness:
  "fst (read_superblock f_multi) = Inr sb_multi
   \<and> 0 < blockSize sb_multi \<and> 8 * blockSize sb_multi < dataBlockCount sb_multi
   \<and> 2 \<le> freeBitmapBlocks sb_multi
   \<and> \<not> isl (fst (read_block f_multi sb_multi (freeBitmapStart sb_multi)))
   \<and> \<not> isl (fst (read_block f_multi sb_multi (freeBitmapStart sb_multi + 1)))
   \<and> fst (bitmap_stats f_multi sb_multi) = Inl IndexError"
proof -
  have sel: "blockSize sb_multi = 64" "dataBlockCount sb_multi = 513"
    "freeBitmapBlocks sb_multi = 2" "freeBitmapStart sb_multi = 2" "totalBlocks sb_multi = 517"
    by (simp_all add: sb_multi_def)
  have f: "data f_multi = img_multi" "pos f_multi = 0"
    by (simp_all add: f_multi_def)
  have sk: "seekable f_multi 128" "seekable f_multi 192" "(64 :: int) < INT64_LIMIT"
    by (simp_all add: seekable_def f_multi_def INT64_LIMIT_def)
  have spec: "superblock_spec img_multi = sb_multi"
    by (simp add: superblock_spec_def le32_spec_def img_multi_def enc32_def sb_multi_def)
  have sb: "fst (read_superblock f_multi) = Inr sb_multi"
    using read_superblock_eval [of f_multi]
    by (simp add: f length_img_multi spec) (simp add: sb_multi_def FS_MAGIC_def)
  have h1: "0 < blockSize sb_multi" and h2: "8 * blockSize sb_multi < dataBlockCount sb_multi"
    and h3: "2 \<le> freeBitmapBlocks sb_multi"
    by (simp_all add: sel)
  have h4: "\<not> isl (fst (read_block f_multi sb_multi (freeBitmapStart sb_multi)))"
    by (simp add: read_block_ok sel f length_img_multi sk)
  have h5: "\<not> isl (fst (read_block f_multi sb_multi (freeBitmapStart sb_multi + 1)))"
    by (simp add: read_block_ok sel f length_img_multi sk)
  show ?thesis
    using sb h1 h2 h3 h4 h5 bitmap_stats_second_block [OF h1 h2 h3 h4 h5] by blast
qed

end
